theory Spec2Isabelle
  imports Main
begin

section \<open>The C++ bundler of onlinejudge-verify (cplusplus\_bundle.py)\<close>

text \<open>
  A shallow embedding of \<^verbatim>\<open>onlinejudge_verify/languages/cplusplus_bundle.py\<close>.
  Python \<^verbatim>\<open>bytes\<close> are lists of 8-bit characters, paths are strings, the mutable
  \<^verbatim>\<open>Bundler\<close> object is a record passed in and returned, an exception is the
  \<open>Inl\<close> of a sum, and everything the module asks of the outside world (the file
  system, the working directory, the compiler driver) is a field of the record
  \<open>env\<close>.
\<close>

subsection \<open>Bytes, paths and the outside world\<close>

type_synonym bytes = string
type_synonym path = string

text \<open>
  The exceptions the module raises itself (\<^verbatim>\<open>BundleError\<close>,
  \<^verbatim>\<open>BundleErrorAt(path, line, message)\<close>) and the ones its library calls raise:
  \<^verbatim>\<open>open\<close>, \<^verbatim>\<open>subprocess.check_output\<close>, \<^verbatim>\<open>assert\<close>,
  \<^verbatim>\<open>bytes.decode\<close> and \<^verbatim>\<open>set.remove\<close>.
\<close>

datatype error =
    BundleError string
  | BundleErrorAt path int string
  | OSError
  | CalledProcessError
  | AssertionError
  | UnicodeDecodeError
  | KeyError

text \<open>
  The outside world. \<open>fs_resolve\<close> is \<^verbatim>\<open>Path.resolve()\<close>, \<open>fs_parent\<close> is
  \<^verbatim>\<open>Path.parent\<close>, \<open>fs_join d p\<close> is \<^verbatim>\<open>d / p\<close>, \<open>fs_exists\<close> is
  \<^verbatim>\<open>Path.exists()\<close>, \<open>fs_read\<close> is \<^verbatim>\<open>open(str(path), "rb").read()\<close> (\<open>None\<close>
  when it raises), \<open>fs_relative_to_cwd\<close> is \<^verbatim>\<open>path.relative_to(Path.cwd())\<close>
  (\<open>None\<close> for its \<^verbatim>\<open>ValueError\<close>), \<open>which\<close> says whether \<^verbatim>\<open>shutil.which\<close>
  finds the command, and \<open>check_output\<close> is \<^verbatim>\<open>subprocess.check_output\<close> (\<open>None\<close>
  when it raises).
\<close>

record env =
  fs_exists :: "path \<Rightarrow> bool"
  fs_resolve :: "path \<Rightarrow> path"
  fs_parent :: "path \<Rightarrow> path"
  fs_join :: "path \<Rightarrow> path \<Rightarrow> path"
  fs_read :: "path \<Rightarrow> bytes option"
  fs_relative_to_cwd :: "path \<Rightarrow> path option"
  which :: "string \<Rightarrow> bool"
  check_output :: "string list \<Rightarrow> bytes option"

definition newline :: char where
  "newline = CHR 0x0A"

definition carriage_return :: char where
  "carriage_return = CHR 0x0D"

definition dquote :: char where
  "dquote = CHR 0x22"

text \<open>\<^verbatim>\<open>\s\<close> of a bytes pattern, and the bytes \<^verbatim>\<open>rstrip()\<close> removes: space, \<^verbatim>\<open>\t \n \r \f \v\<close>.\<close>

definition is_space :: "char \<Rightarrow> bool" where
  "is_space c = (c = CHR '' '' \<or> c = CHR 0x09 \<or> c = CHR 0x0A \<or> c = CHR 0x0D
     \<or> c = CHR 0x0C \<or> c = CHR 0x0B)"

text \<open>\<^verbatim>\<open>\d\<close> of a bytes pattern: \<^verbatim>\<open>[0-9]\<close>.\<close>

definition is_digit :: "char \<Rightarrow> bool" where
  "is_digit c = (48 \<le> (of_char c :: nat) \<and> (of_char c :: nat) \<le> 57)"

text \<open>\<^verbatim>\<open>\w\<close> of a bytes pattern: \<^verbatim>\<open>[a-zA-Z0-9_]\<close>.\<close>

definition is_word :: "char \<Rightarrow> bool" where
  "is_word c = (let n = (of_char c :: nat) in
     (48 \<le> n \<and> n \<le> 57) \<or> (65 \<le> n \<and> n \<le> 90) \<or> (97 \<le> n \<and> n \<le> 122) \<or> n = 95)"

definition startswith :: "bytes \<Rightarrow> bytes \<Rightarrow> bool" where
  "startswith s pre = (take (length pre) s = pre)"

definition endswith_newline :: "bytes \<Rightarrow> bool" where
  "endswith_newline s = (s \<noteq> [] \<and> last s = newline)"

definition rstrip :: "bytes \<Rightarrow> bytes" where
  "rstrip s = rev (dropWhile is_space (rev s))"

text \<open>
  \<^verbatim>\<open>bytes.splitlines(keepends=True)\<close>: a line ends at \<^verbatim>\<open>\n\<close>, at \<^verbatim>\<open>\r\n\<close> or at a
  lone \<^verbatim>\<open>\r\<close>, the terminator stays on the line, and no empty last line is made.
  The first argument is the line read so far.
\<close>

fun splitlines_from :: "bytes \<Rightarrow> bytes \<Rightarrow> bytes list" where
  "splitlines_from cur [] = (if cur = [] then [] else [cur])"
| "splitlines_from cur (c # cs) =
     (if c = newline then (cur @ [c]) # splitlines_from [] cs
      else if c = carriage_return then
        (case cs of
           [] \<Rightarrow> [cur @ [c]]
         | d # ds \<Rightarrow>
             if d = newline then (cur @ [c, d]) # splitlines_from [] ds
             else (cur @ [c]) # splitlines_from [] cs)
      else splitlines_from (cur @ [c]) cs)"

definition splitlines :: "bytes \<Rightarrow> bytes list" where
  "splitlines s = splitlines_from [] s"

text \<open>Decimal digits of a natural number, as \<^verbatim>\<open>'{}'.format(n)\<close> prints it.\<close>

fun show_nat :: "nat \<Rightarrow> string" where
  "show_nat n =
     (if n < 10 then [''0123456789'' ! n]
      else show_nat (n div 10) @ [''0123456789'' ! (n mod 10)])"

declare show_nat.simps [simp del]

text \<open>\<^verbatim>\<open>int(digits)\<close> on a run of decimal digits; the first argument is the value so far.\<close>

fun int_of_digits :: "nat \<Rightarrow> bytes \<Rightarrow> nat" where
  "int_of_digits acc [] = acc"
| "int_of_digits acc (c # cs) = int_of_digits (10 * acc + ((of_char c :: nat) - 48)) cs"

text \<open>
  \<^verbatim>\<open>bytes.decode()\<close> raises \<^verbatim>\<open>UnicodeDecodeError\<close> unless the bytes are well-formed
  UTF-8 (no overlong form, no surrogate, nothing above U+10FFFF). Decoding is
  injective, so the decoded names are compared as their bytes.
\<close>

definition is_cont :: "char \<Rightarrow> bool" where
  "is_cont c = (128 \<le> (of_char c :: nat) \<and> (of_char c :: nat) \<le> 191)"

fun utf8_ok :: "bytes \<Rightarrow> bool" where
  "utf8_ok [] = True"
| "utf8_ok (c # cs) =
     (let b = (of_char c :: nat) in
      if b < 128 then utf8_ok cs
      else if 194 \<le> b \<and> b \<le> 223 then
        (case cs of c1 # r \<Rightarrow> is_cont c1 \<and> utf8_ok r | _ \<Rightarrow> False)
      else if 224 \<le> b \<and> b \<le> 239 then
        (case cs of
           c1 # c2 # r \<Rightarrow>
             is_cont c1 \<and> is_cont c2
             \<and> (if b = 224 then 160 \<le> (of_char c1 :: nat) else True)
             \<and> (if b = 237 then (of_char c1 :: nat) \<le> 159 else True)
             \<and> utf8_ok r
         | _ \<Rightarrow> False)
      else if 240 \<le> b \<and> b \<le> 244 then
        (case cs of
           c1 # c2 # c3 # r \<Rightarrow>
             is_cont c1 \<and> is_cont c2 \<and> is_cont c3
             \<and> (if b = 240 then 144 \<le> (of_char c1 :: nat) else True)
             \<and> (if b = 244 then (of_char c1 :: nat) \<le> 143 else True)
             \<and> utf8_ok r
         | _ \<Rightarrow> False)
      else False)"

subsection \<open>The directive patterns\<close>

text \<open>
  Every pattern is used with \<^verbatim>\<open>re.match\<close>: it has to match at the start of the line
  and may leave a rest. All of them start with \<^verbatim>\<open>\s*#\s*\<close>; \<open>after_hash\<close> is what
  follows that prefix.
\<close>

definition after_hash :: "bytes \<Rightarrow> bytes option" where
  "after_hash s =
     (case dropWhile is_space s of
        [] \<Rightarrow> None
      | c # r \<Rightarrow> if c = CHR ''#'' then Some (dropWhile is_space r) else None)"

text \<open>The keyword \<open>kw\<close> followed by one \<^verbatim>\<open>\s\<close>.\<close>

definition keyword_space :: "bytes \<Rightarrow> bytes \<Rightarrow> bool" where
  "keyword_space r kw =
     (startswith r kw \<and>
      (case drop (length kw) r of [] \<Rightarrow> False | c # _ \<Rightarrow> is_space c))"

text \<open>\<^verbatim>\<open>\s*#\s*(if|ifdef|ifndef)\s.*\<close>\<close>

definition match_if :: "bytes \<Rightarrow> bool" where
  "match_if s =
     (case after_hash s of
        None \<Rightarrow> False
      | Some r \<Rightarrow> keyword_space r ''if'' \<or> keyword_space r ''ifdef'' \<or> keyword_space r ''ifndef'')"

text \<open>\<^verbatim>\<open>\s*#\s*(else\s*|elif\s.*)\<close>\<close>

definition match_else :: "bytes \<Rightarrow> bool" where
  "match_else s =
     (case after_hash s of
        None \<Rightarrow> False
      | Some r \<Rightarrow> startswith r ''else'' \<or> keyword_space r ''elif'')"

text \<open>\<^verbatim>\<open>\s*#\s*endif\s*\<close>\<close>

definition match_endif :: "bytes \<Rightarrow> bool" where
  "match_endif s =
     (case after_hash s of
        None \<Rightarrow> False
      | Some r \<Rightarrow> startswith r ''endif'')"

text \<open>\<^verbatim>\<open>\s*#\s*pragma\s+once\s*\<close>\<close>

definition match_pragma_once :: "bytes \<Rightarrow> bool" where
  "match_pragma_once s =
     (case after_hash s of
        None \<Rightarrow> False
      | Some r \<Rightarrow>
          keyword_space r ''pragma''
          \<and> startswith (dropWhile is_space (drop (length ''pragma'') r)) ''once'')"

text \<open>
  \<^verbatim>\<open>\s*#\s*KW\s+(\w+)\s*\<close> for the keyword \<open>kw\<close>: group 1, the longest run of word
  characters after the white space.
\<close>

definition match_keyword_ident :: "bytes \<Rightarrow> bytes \<Rightarrow> bytes option" where
  "match_keyword_ident kw s =
     (case after_hash s of
        None \<Rightarrow> None
      | Some r \<Rightarrow>
          if keyword_space r kw then
            (let w = takeWhile is_word (dropWhile is_space (drop (length kw) r))
             in if w = [] then None else Some w)
          else None)"

text \<open>\<^verbatim>\<open>\s*#\s*ifndef\s+(\w+)\s*\<close>\<close>

definition match_ifndef :: "bytes \<Rightarrow> bytes option" where
  "match_ifndef s = match_keyword_ident ''ifndef'' s"

text \<open>\<^verbatim>\<open>\s*#\s*define\s+(\w+)\s*\<close>\<close>

definition match_define :: "bytes \<Rightarrow> bytes option" where
  "match_define s = match_keyword_ident ''define'' s"

text \<open>
  \<^verbatim>\<open>\s*#\s*include\s*OPEN(.*)CLOSE\s*\<close>: \<^verbatim>\<open>.\<close> matches every byte but
  \<^verbatim>\<open>\n\<close> and \<^verbatim>\<open>.*\<close> is greedy, so group 1 runs to the last \<open>close\<close> before the
  first \<^verbatim>\<open>\n\<close>.
\<close>

definition match_include :: "char \<Rightarrow> char \<Rightarrow> bytes \<Rightarrow> bytes option" where
  "match_include opening closing s =
     (case after_hash s of
        None \<Rightarrow> None
      | Some r \<Rightarrow>
          if startswith r ''include'' then
            (case dropWhile is_space (drop (length ''include'') r) of
               [] \<Rightarrow> None
             | c # body \<Rightarrow>
                 if c = opening then
                   (let seg = takeWhile (\<lambda>x. x \<noteq> newline) body
                    in if closing \<in> set seg
                       then Some (rev (tl (dropWhile (\<lambda>x. x \<noteq> closing) (rev seg))))
                       else None)
                 else None)
          else None)"

text \<open>\<^verbatim>\<open>\s*#\s*include\s*<(.*)>\s*\<close>\<close>

definition match_include_angle :: "bytes \<Rightarrow> bytes option" where
  "match_include_angle s = match_include (CHR ''<'') (CHR ''>'') s"

text \<open>\<^verbatim>\<open>\s*#\s*include\s*"(.*)"\s*\<close>\<close>

definition match_include_quote :: "bytes \<Rightarrow> bytes option" where
  "match_include_quote s = match_include dquote dquote s"

text \<open>
  \<^verbatim>\<open># (\d+) ".*"\<close>, the linemarker of the preprocessor: the value of group 1.
\<close>

definition match_linemarker :: "bytes \<Rightarrow> nat option" where
  "match_linemarker s =
     (case s of
        c1 # c2 # r \<Rightarrow>
          if c1 = CHR ''#'' \<and> c2 = CHR '' '' then
            (let ds = takeWhile is_digit r
             in if ds = [] then None
                else
                  (case dropWhile is_digit r of
                     a # b # r' \<Rightarrow>
                       if a = CHR '' '' \<and> b = dquote
                          \<and> dquote \<in> set (takeWhile (\<lambda>x. x \<noteq> newline) r')
                       then Some (int_of_digits 0 ds)
                       else None
                   | _ \<Rightarrow> None))
          else None
      | _ \<Rightarrow> None)"

subsection \<open>The standard library names\<close>

definition bits_stdcxx_h :: string where
  "bits_stdcxx_h = ''bits/stdc++.h''"

definition cxx_standard_libraries :: "string list" where
  "cxx_standard_libraries =
     [''algorithm'', ''array'', ''bitset'', ''chrono'', ''codecvt'', ''complex'',
      ''condition_variable'', ''deque'', ''exception'', ''forward_list'', ''fstream'',
      ''functional'', ''future'', ''iomanip'', ''ios'', ''iosfwd'', ''iostream'', ''istream'',
      ''iterator'', ''limits'', ''list'', ''locale'', ''map'', ''memory'', ''mutex'', ''new'',
      ''numeric'', ''ostream'', ''queue'', ''random'', ''regex'', ''set'', ''sstream'', ''stack'',
      ''stdexcept'', ''streambuf'', ''string'', ''thread'', ''tuple'', ''typeinfo'',
      ''unordered_map'', ''unordered_set'', ''utility'', ''valarray'', ''vector'']"

definition c_standard_libraries :: "string list" where
  "c_standard_libraries =
     [''assert.h'', ''complex.h'', ''ctype.h'', ''errno.h'', ''fenv.h'', ''float.h'',
      ''inttypes.h'', ''iso646.h'', ''limits.h'', ''locale.h'', ''math.h'', ''setjmp.h'',
      ''signal.h'', ''stdalign.h'', ''stdarg.h'', ''stdatomic.h'', ''stdbool.h'', ''stddef.h'',
      ''stdint.h'', ''stdio.h'', ''stdlib.h'', ''stdnoreturn.h'', ''string.h'', ''tgmath.h'',
      ''threads.h'', ''time.h'', ''uchar.h'', ''wchar.h'', ''wctype.h'']"

text \<open>\<^verbatim>\<open>name[:-len('.h')]\<close> drops the last two characters.\<close>

definition standard_libraries :: "string set" where
  "standard_libraries =
     set ([bits_stdcxx_h] @ cxx_standard_libraries @ c_standard_libraries
          @ map (\<lambda>name. ''c'' @ take (length name - length ''.h'') name) c_standard_libraries)"

subsection \<open>The comment stripper\<close>

text \<open>
  \<^verbatim>\<open>str.lower()\<close> on the ASCII letters (no other letter becomes one of the letters
  looked for below), and \<^verbatim>\<open>needle in haystack\<close>.
\<close>

definition lower_char :: "char \<Rightarrow> char" where
  "lower_char c =
     (if 65 \<le> (of_char c :: nat) \<and> (of_char c :: nat) \<le> 90
      then char_of ((of_char c :: nat) + 32) else c)"

fun contains :: "string \<Rightarrow> string \<Rightarrow> bool" where
  "contains [] needle = (needle = [])"
| "contains (c # cs) needle = (startswith (c # cs) needle \<or> contains cs needle)"

text \<open>
  \<^verbatim>\<open>_check_compiler\<close>: the kind of the driver, read off its \<^verbatim>\<open>--version\<close> output.
\<close>

definition check_compiler :: "env \<Rightarrow> string \<Rightarrow> error + string" where
  "check_compiler env cxx =
     (case check_output env [cxx, ''--version''] of
        None \<Rightarrow> Inl CalledProcessError
      | Some out \<Rightarrow>
          if \<not> utf8_ok out then Inl UnicodeDecodeError
          else
            (let version = map lower_char out
             in if contains version ''clang'' \<or> contains version (map lower_char ''Apple LLVM'')
                then Inr ''clang''
                else if contains version ''g++'' then Inr ''gcc''
                else Inr ''unknown''))"

text \<open>
  \<^verbatim>\<open>_get_uncommented_code\<close>: the run of the preprocessor. The \<^verbatim>\<open>lru_cache\<close> is not
  modelled: \<open>env\<close> answers the same command the same way.
\<close>

definition get_uncommented_code' :: "env \<Rightarrow> path \<Rightarrow> string list \<Rightarrow> string \<Rightarrow> error + bytes" where
  "get_uncommented_code' env path iquotes_options cxx =
     (if \<not> which env cxx then Inl (BundleError (''command not found: '' @ cxx))
      else
        (case check_compiler env cxx of
           Inl e \<Rightarrow> Inl e
         | Inr kind \<Rightarrow>
             if kind \<noteq> ''gcc'' then
               (if cxx = ''g++''
                then Inl (BundleError
                  (''A fake g++ is detected. Please install the GNU C++ compiler.: '' @ cxx))
                else Inl (BundleError
                  (''It's not g++. Please specify g++ with $CXX envvar.: '' @ cxx)))
             else
               (case check_output env
                       ([cxx] @ iquotes_options @ [''-fpreprocessed'', ''-dD'', ''-E'', path]) of
                  None \<Rightarrow> Inl CalledProcessError
                | Some out \<Rightarrow> Inr out)))"

text \<open>
  The inner loop of \<^verbatim>\<open>get_uncommented_code\<close>:
  \<^verbatim>\<open>while len(lines) + 1 < lineno: lines.append(b'\n')\<close>.
\<close>

function pad_lines :: "bytes list \<Rightarrow> nat \<Rightarrow> bytes list" where
  "pad_lines lines lineno =
     (if length lines + 1 < lineno then pad_lines (lines @ [[newline]]) lineno else lines)"
  by pat_completeness auto
termination
  by (relation "measure (\<lambda>(lines, lineno). lineno - length lines)") auto

declare pad_lines.simps [simp del]

text \<open>The outer loop, over the lines of the preprocessor's output.\<close>

fun uncomment_loop :: "bytes list \<Rightarrow> bytes list \<Rightarrow> bytes list" where
  "uncomment_loop lines [] = lines"
| "uncomment_loop lines (line # rest) =
     (case match_linemarker (rstrip line) of
        Some lineno \<Rightarrow> uncomment_loop (pad_lines lines lineno) rest
      | None \<Rightarrow> uncomment_loop (lines @ [line]) rest)"

definition get_uncommented_code :: "env \<Rightarrow> path \<Rightarrow> path list \<Rightarrow> string \<Rightarrow> error + bytes" where
  "get_uncommented_code env path iquotes cxx =
     (case get_uncommented_code' env (fs_resolve env path)
             (concat (map (\<lambda>iquote. [''-I'', fs_resolve env iquote]) iquotes)) cxx of
        Inl e \<Rightarrow> Inl e
      | Inr code \<Rightarrow> Inr (concat (uncomment_loop [] (splitlines code))))"

subsection \<open>The bundler\<close>

text \<open>The fields of a \<^verbatim>\<open>Bundler\<close> object.\<close>

record bundler =
  iquotes :: "path list"
  pragma_once :: "path set"
  pragma_once_system :: "string set"
  result_lines :: "bytes list"
  path_stack :: "path set"
  compiler :: string

text \<open>\<^verbatim>\<open>Bundler.__init__\<close>\<close>

definition init_bundler :: "path list \<Rightarrow> string \<Rightarrow> bundler" where
  "init_bundler iqs cxx =
     \<lparr>iquotes = iqs, pragma_once = {}, pragma_once_system = {}, result_lines = [],
      path_stack = {}, compiler = cxx\<rparr>"

text \<open>
  The loop of \<^verbatim>\<open>Bundler._line\<close>:
  \<^verbatim>\<open>while self.result_lines and self.result_lines[-1].startswith(b'#line '): pop()\<close>.
\<close>

function pop_line_directives :: "bytes list \<Rightarrow> bytes list" where
  "pop_line_directives rl =
     (if rl \<noteq> [] \<and> startswith (last rl) ''#line '' then pop_line_directives (butlast rl)
      else rl)"
  by pat_completeness auto
termination
  by (relation "measure length") auto

declare pop_line_directives.simps [simp del]

text \<open>
  The path \<^verbatim>\<open>Bundler._line\<close> prints: relative to the working directory when
  \<^verbatim>\<open>relative_to\<close> does not raise \<^verbatim>\<open>ValueError\<close>, as it is otherwise.
\<close>

definition shown_path :: "env \<Rightarrow> path \<Rightarrow> path" where
  "shown_path env path = (case fs_relative_to_cwd env path of Some rel \<Rightarrow> rel | None \<Rightarrow> path)"

text \<open>\<^verbatim>\<open>'#line {} "{}"\n'.format(line, str(path)).encode()\<close>\<close>

definition line_directive :: "nat \<Rightarrow> string \<Rightarrow> bytes" where
  "line_directive n name =
     ''#line '' @ show_nat n @ '' '' @ [dquote] @ name @ [dquote] @ [newline]"

text \<open>\<^verbatim>\<open>Bundler._line\<close>; the line number is never negative.\<close>

definition Bundler_line :: "env \<Rightarrow> nat \<Rightarrow> path \<Rightarrow> bundler \<Rightarrow> bundler" where
  "Bundler_line env line path s =
     s\<lparr>result_lines :=
         pop_line_directives (result_lines s) @ [line_directive line (shown_path env path)]\<rparr>"

text \<open>The loop of \<^verbatim>\<open>Bundler._resolve\<close> over the directories of \<^verbatim>\<open>iquotes\<close>.\<close>

fun resolve_iquotes :: "env \<Rightarrow> path list \<Rightarrow> path \<Rightarrow> path option" where
  "resolve_iquotes env [] path = None"
| "resolve_iquotes env (dir # dirs) path =
     (if fs_exists env (fs_join env dir path) then Some (fs_resolve env (fs_join env dir path))
      else resolve_iquotes env dirs path)"

text \<open>\<^verbatim>\<open>Bundler._resolve\<close>\<close>

definition Bundler_resolve :: "env \<Rightarrow> bundler \<Rightarrow> path \<Rightarrow> path \<Rightarrow> error + path" where
  "Bundler_resolve env s path included_from =
     (if fs_exists env (fs_join env (fs_parent env included_from) path)
      then Inr (fs_resolve env (fs_join env (fs_parent env included_from) path))
      else
        (case resolve_iquotes env (iquotes s) path of
           Some found \<Rightarrow> Inr found
         | None \<Rightarrow> Inl (BundleErrorAt path (- 1) ''no such header'')))"

text \<open>The variables of \<^verbatim>\<open>Bundler.update\<close> that live for one file.\<close>

record line_state =
  non_guard_line_found :: bool
  pragma_once_found :: bool
  include_guard_macro :: "bytes option"
  include_guard_define_found :: bool
  include_guard_endif_found :: bool
  preprocess_if_nest :: int

definition init_line_state :: line_state where
  "init_line_state =
     \<lparr>non_guard_line_found = False, pragma_once_found = False, include_guard_macro = None,
      include_guard_define_found = False, include_guard_endif_found = False,
      preprocess_if_nest = 0\<rparr>"

text \<open>
  The first part of the loop body, the conditional nesting counter (the line
  number of an error is \<open>i + 1\<close>).
\<close>

definition nest_step :: "path \<Rightarrow> nat \<Rightarrow> bytes \<Rightarrow> int \<Rightarrow> error + int" where
  "nest_step path i uncommented_line nest =
     (let nest1 = (if match_if uncommented_line then nest + 1 else nest)
      in if match_else uncommented_line \<and> nest1 = 0
         then Inl (BundleErrorAt path (int i + 1) ''unmatched #else / #elif'')
         else if match_endif uncommented_line then
           (if nest1 - 1 < 0 then Inl (BundleErrorAt path (int i + 1) ''unmatched #endif'')
            else Inr (nest1 - 1))
         else Inr nest1)"

definition is_toplevel :: "int \<Rightarrow> bytes option \<Rightarrow> bool" where
  "is_toplevel nest guard_macro = (nest = 0 \<or> (nest = 1 \<and> guard_macro \<noteq> None))"

definition emit :: "bytes \<Rightarrow> bundler \<Rightarrow> bundler" where
  "emit line s = s\<lparr>result_lines := result_lines s @ [line]\<rparr>"

text \<open>
  What one pass through the loop body does: raise, \<^verbatim>\<open>return\<close> from \<^verbatim>\<open>update\<close>, go on
  to the next line with new variables and a new bundler, or (a line
  \<^verbatim>\<open>#include "..."\<close> at top level) call \<^verbatim>\<open>update\<close> on the included file first.
\<close>

datatype step =
    Raise error
  | Return
  | Continue line_state bundler
  | Recurse bytes line_state

text \<open>
  The part of the loop body from \<^verbatim>\<open>if uncommented_line:\<close> on, reached when the line
  is neither \<^verbatim>\<open>#pragma once\<close> nor a part of the include guard. \<open>toplevel\<close> is the
  value \<^verbatim>\<open>is_toplevel\<close> got before the guard candidate could be dropped.
\<close>

definition non_guard_line ::
  "env \<Rightarrow> path \<Rightarrow> nat \<Rightarrow> bytes \<Rightarrow> bytes \<Rightarrow> bool \<Rightarrow> line_state \<Rightarrow> bundler \<Rightarrow> step" where
  "non_guard_line env path i line uncommented_line toplevel st s =
     (let st1 =
            (if uncommented_line \<noteq> [] then
               st\<lparr>non_guard_line_found := True,
                  include_guard_macro :=
                    (if include_guard_macro st \<noteq> None \<and> \<not> include_guard_define_found st
                     then None else include_guard_macro st)\<rparr>
             else st)
      in if uncommented_line \<noteq> [] \<and> include_guard_endif_found st
         then Raise (BundleErrorAt path (int i + 1) ''found codes out of include guard'')
         else
           (case match_include_angle uncommented_line of
              Some included \<Rightarrow>
                if \<not> utf8_ok included then Raise UnicodeDecodeError
                else if included \<in> pragma_once_system s \<or> bits_stdcxx_h \<in> pragma_once_system s
                then Continue st1 (Bundler_line env (i + 2) path s)
                else if toplevel \<and> included \<in> standard_libraries
                then Continue st1
                       (emit line (s\<lparr>pragma_once_system := insert included (pragma_once_system s)\<rparr>))
                else Continue st1 (emit line s)
            | None \<Rightarrow>
                (case match_include_quote uncommented_line of
                   Some included \<Rightarrow>
                     if \<not> utf8_ok included then Raise UnicodeDecodeError
                     else if \<not> toplevel
                     then Raise (BundleErrorAt path (int i + 1)
                       ''unable to process #include in #if / #ifdef / #ifndef other than include guards'')
                     else Recurse included st1
                 | None \<Rightarrow> Continue st1 (emit line s))))"

text \<open>The loop body of \<^verbatim>\<open>Bundler.update\<close> for line \<open>i\<close> (counted from 0).\<close>

definition process_line ::
  "env \<Rightarrow> path \<Rightarrow> nat \<Rightarrow> bytes \<Rightarrow> bytes \<Rightarrow> line_state \<Rightarrow> bundler \<Rightarrow> step" where
  "process_line env path i line uncommented_line st0 s =
     (case nest_step path i uncommented_line (preprocess_if_nest st0) of
        Inl e \<Rightarrow> Raise e
      | Inr nest \<Rightarrow>
          (let st = st0\<lparr>preprocess_if_nest := nest\<rparr>;
               toplevel = is_toplevel nest (include_guard_macro st)
           in if match_pragma_once line then
                (if non_guard_line_found st
                 then Raise (BundleErrorAt path (int i + 1) ''#pragma once found in a non-first line'')
                 else if include_guard_macro st \<noteq> None
                 then Raise (BundleErrorAt path (int i + 1)
                   ''#pragma once found in an include guard with #ifndef'')
                 else if fs_resolve env path \<in> pragma_once s then Return
                 else Continue (st\<lparr>pragma_once_found := True\<rparr>)
                        (Bundler_line env (i + 2) path
                           (s\<lparr>pragma_once := insert (fs_resolve env path) (pragma_once s)\<rparr>)))
              else if \<not> pragma_once_found st \<and> \<not> non_guard_line_found st
                      \<and> include_guard_macro st = None \<and> match_ifndef uncommented_line \<noteq> None
              then Continue (st\<lparr>include_guard_macro := match_ifndef uncommented_line\<rparr>)
                     (emit [newline] s)
              else if include_guard_macro st \<noteq> None \<and> \<not> include_guard_define_found st
                      \<and> match_define uncommented_line \<noteq> None
                      \<and> match_define uncommented_line = include_guard_macro st
              then Continue (st\<lparr>include_guard_define_found := True\<rparr>)
                     (emit [newline]
                        (s\<lparr>pragma_once := insert (fs_resolve env path) (pragma_once s)\<rparr>))
              else if include_guard_define_found st \<and> nest = 0
                      \<and> \<not> include_guard_endif_found st \<and> match_endif uncommented_line
              then Continue (st\<lparr>include_guard_endif_found := True\<rparr>) (emit [newline] s)
              else non_guard_line env path i line uncommented_line toplevel st s))"

text \<open>How the loop over the lines of a file ends.\<close>

datatype loop_exit =
    Raised error
  | Returned
  | Finished line_state

text \<open>The checks after the loop; \<open>n\<close> is the number of lines, the last \<open>i + 1\<close>.\<close>

definition end_of_file :: "path \<Rightarrow> nat \<Rightarrow> line_state \<Rightarrow> error + unit" where
  "end_of_file path n st =
     (if preprocess_if_nest st \<noteq> 0
      then Inl (BundleErrorAt path (int n) ''unmatched #if / #ifdef / #ifndef'')
      else if include_guard_macro st \<noteq> None \<and> \<not> include_guard_endif_found st
      then Inl (BundleErrorAt path (int n) ''unmatched #ifndef'')
      else Inr ())"

text \<open>
  What \<^verbatim>\<open>update\<close> reads before the loop: the lines of the file and of its
  comment-free view, the second padded with empty lines; the \<^verbatim>\<open>assert\<close> fails when
  the view is the longer one.
\<close>

definition read_lines :: "env \<Rightarrow> bundler \<Rightarrow> path \<Rightarrow> error + (bytes \<times> bytes) list" where
  "read_lines env s path =
     (case fs_read env path of
        None \<Rightarrow> Inl OSError
      | Some code0 \<Rightarrow>
          (let code = (if endswith_newline code0 then code0 else code0 @ [newline]);
               lines = splitlines code
           in case get_uncommented_code env path (iquotes s) (compiler s) of
                Inl e \<Rightarrow> Inl e
              | Inr uncommented \<Rightarrow>
                  (let ul = splitlines uncommented;
                       uncommented_lines = ul @ replicate (length lines - length ul) []
                   in if length lines \<noteq> length uncommented_lines then Inl AssertionError
                      else Inr (zip lines uncommented_lines))))"

text \<open>
  \<^verbatim>\<open>Bundler.update\<close> and its loop. The first argument bounds the depth of the
  nested calls of \<^verbatim>\<open>update\<close>; \<open>None\<close> says that the bound was too small. The
  result is the outcome (\<open>Inl\<close> an exception) and the bundler as the call left it.
  The \<^verbatim>\<open>finally\<close> clause runs on every way out of the \<^verbatim>\<open>try\<close> block, and the
  \<^verbatim>\<open>KeyError\<close> of \<^verbatim>\<open>set.remove\<close> would replace a pending exception.
\<close>

fun update :: "nat \<Rightarrow> env \<Rightarrow> path \<Rightarrow> bundler \<Rightarrow> ((error + unit) \<times> bundler) option"
  and process_lines ::
    "nat \<Rightarrow> env \<Rightarrow> path \<Rightarrow> nat \<Rightarrow> (bytes \<times> bytes) list \<Rightarrow> line_state \<Rightarrow> bundler
       \<Rightarrow> (loop_exit \<times> bundler) option" where
  "update 0 env path s = None"
| "update (Suc n) env path s =
     (if fs_resolve env path \<in> pragma_once s then Some (Inr (), s)
      else if path \<in> path_stack s
      then Some (Inl (BundleErrorAt path (- 1) ''cycle found in inclusion relations''), s)
      else
        (let s1 = s\<lparr>path_stack := insert path (path_stack s)\<rparr>;
             body =
               (case read_lines env s1 path of
                  Inl e \<Rightarrow> Some (Inl e, s1)
                | Inr pairs \<Rightarrow>
                    (case process_lines n env path 0 pairs init_line_state
                            (Bundler_line env 1 path s1) of
                       None \<Rightarrow> None
                     | Some (Raised e, s2) \<Rightarrow> Some (Inl e, s2)
                     | Some (Returned, s2) \<Rightarrow> Some (Inr (), s2)
                     | Some (Finished st, s2) \<Rightarrow> Some (end_of_file path (length pairs) st, s2)))
         in case body of
              None \<Rightarrow> None
            | Some (r, s2) \<Rightarrow>
                if path \<in> path_stack s2
                then Some (r, s2\<lparr>path_stack := path_stack s2 - {path}\<rparr>)
                else Some (Inl KeyError, s2)))"
| "process_lines n env path i [] st s = Some (Finished st, s)"
| "process_lines n env path i ((line, uncommented_line) # rest) st s =
     (case process_line env path i line uncommented_line st s of
        Raise e \<Rightarrow> Some (Raised e, s)
      | Return \<Rightarrow> Some (Returned, s)
      | Continue st1 s1 \<Rightarrow> process_lines n env path (i + 1) rest st1 s1
      | Recurse included st1 \<Rightarrow>
          (case Bundler_resolve env s included path of
             Inl e \<Rightarrow> Some (Raised e, s)
           | Inr found \<Rightarrow>
               (case update n env found s of
                  None \<Rightarrow> None
                | Some (Inl e, s1) \<Rightarrow> Some (Raised e, s1)
                | Some (Inr u, s1) \<Rightarrow>
                    process_lines n env path (i + 1) rest st1 (Bundler_line env (i + 2) path s1))))"

text \<open>\<^verbatim>\<open>Bundler.get\<close>\<close>

definition get :: "bundler \<Rightarrow> bytes" where
  "get s = concat (result_lines s)"

subsection \<open>Notions used in the statements\<close>

text \<open>
  What a call of \<^verbatim>\<open>update\<close> may do to the bundler besides writing output: the
  path stack, the search directories and the compiler stay, the two sets of
  files and headers seen only grow.
\<close>

definition grows :: "bundler \<Rightarrow> bundler \<Rightarrow> bool" where
  "grows s s' =
     (path_stack s' = path_stack s \<and> pragma_once s \<subseteq> pragma_once s'
      \<and> pragma_once_system s \<subseteq> pragma_once_system s'
      \<and> iquotes s' = iquotes s \<and> compiler s' = compiler s)"

subsection \<open>A small world for the examples\<close>

text \<open>
  All files lie in the working directory and are named by their file names, which
  are already resolved; \<open>files\<close> gives their contents and \<open>views\<close> what
  \<^verbatim>\<open>g++ -fpreprocessed -dD -E\<close> prints for each of them.
\<close>

definition world :: "(path \<times> bytes) list \<Rightarrow> (path \<times> bytes) list \<Rightarrow> env" where
  "world files views =
     \<lparr>fs_exists = (\<lambda>p. map_of files p \<noteq> None),
      fs_resolve = (\<lambda>p. p),
      fs_parent = (\<lambda>p. []),
      fs_join = (\<lambda>d p. p),
      fs_read = map_of files,
      fs_relative_to_cwd = (\<lambda>p. None),
      which = (\<lambda>c. c = ''g++''),
      check_output =
        (\<lambda>cmd. if cmd = [''g++'', ''--version''] then Some ''g++ (GCC) 12.2.0''
               else map_of views (last cmd))\<rparr>"

text \<open>The linemarker \<^verbatim>\<open># n "name"\<close> of the preprocessor, with its newline.\<close>

definition linemarker :: "nat \<Rightarrow> string \<Rightarrow> bytes" where
  "linemarker n name = ''# '' @ show_nat n @ '' '' @ [dquote] @ name @ [dquote] @ [newline]"

text \<open>The line \<^verbatim>\<open>#include "name"\<close> with its newline.\<close>

definition include_quote :: "string \<Rightarrow> bytes" where
  "include_quote name = ''#include '' @ [dquote] @ name @ [dquote] @ [newline]"

text \<open>A header with \<^verbatim>\<open>#pragma once\<close>, and the bundler after it was bundled once.\<close>

definition once_world :: env where
  "once_world =
     world [(''a.h'', ''#pragma once'' @ [newline] @ ''int x;'' @ [newline])]
           [(''a.h'', linemarker 1 ''a.h'' @ [newline] @ ''int x;'' @ [newline])]"

definition once_state :: bundler where
  "once_state =
     (init_bundler [] ''g++'')
       \<lparr>pragma_once := {''a.h''},
        result_lines := [line_directive 2 ''a.h'', ''int x;'' @ [newline]]\<rparr>"


subsection \<open>The resolver, in the words of the specification\<close>

text \<open>
  The candidates are the directory of the including file joined with the header,
  then each search directory joined with the header, in the order given. The first
  candidate that exists wins and is returned resolved; when none exists, the error
  names the header.
\<close>

definition resolve_candidates :: "env \<Rightarrow> path list \<Rightarrow> path \<Rightarrow> path \<Rightarrow> path list" where
  "resolve_candidates env dirs header including =
     map (\<lambda>dir. fs_join env dir header) (fs_parent env including # dirs)"

definition resolve_spec :: "env \<Rightarrow> path list \<Rightarrow> path \<Rightarrow> path \<Rightarrow> error + path" where
  "resolve_spec env dirs header including =
     (case find (fs_exists env) (resolve_candidates env dirs header including) of
        Some candidate \<Rightarrow> Inr (fs_resolve env candidate)
      | None \<Rightarrow> Inl (BundleErrorAt header (- 1) ''no such header''))"

subsection \<open>Matched conditionals\<close>



text \<open>A header with two \<^verbatim>\<open>#pragma once\<close> lines, which the preprocessor blanks.\<close>

definition twice_world :: env where
  "twice_world =
     world [(''a.h'', ''#pragma once'' @ [newline] @ ''#pragma once'' @ [newline]
                      @ ''int x;'' @ [newline])]
           [(''a.h'', linemarker 1 ''a.h'' @ [newline] @ [newline] @ ''int x;'' @ [newline])]"


definition code_line :: bytes where "code_line = ''int x;'' @ [newline]"




definition pragma_line :: bytes where "pragma_line = ''#pragma once'' @ [newline]"

text \<open>The bundler when the loop over the header of \<open>once_world\<close> starts.\<close>

definition once_entry :: bundler where
  "once_entry =
     (init_bundler [] ''g++'')
       \<lparr>path_stack := {''a.h''}, result_lines := [line_directive 1 ''a.h'']\<rparr>"

text \<open>The bundler of \<open>twice_world\<close> after the first \<^verbatim>\<open>#pragma once\<close> of its header.\<close>

definition twice_after_first :: bundler where
  "twice_after_first =
     (init_bundler [] ''g++'')
       \<lparr>path_stack := {''a.h''}, pragma_once := {''a.h''},
        result_lines := [line_directive 2 ''a.h'']\<rparr>"


subsection \<open>System includes in the output\<close>





text \<open>
  A file that starts with \<^verbatim>\<open>#ifndef ONLINE_JUDGE\<close>, which no \<^verbatim>\<open>#define\<close> follows,
  and includes \<^verbatim>\<open>debug.h\<close> inside it.
\<close>

definition ifndef_include_source :: bytes where
  "ifndef_include_source =
     ''#ifndef ONLINE_JUDGE'' @ [newline] @ include_quote ''debug.h''
     @ ''#endif'' @ [newline] @ ''int main() {}'' @ [newline]"

definition ifndef_include_world :: env where
  "ifndef_include_world =
     world [(''main.cc'', ifndef_include_source), (''debug.h'', ''int dbg;'' @ [newline])]
           [(''main.cc'', linemarker 1 ''main.cc'' @ ifndef_include_source),
            (''debug.h'', linemarker 1 ''debug.h'' @ ''int dbg;'' @ [newline])]"

text \<open>
  A generated file of two lines that carries a linemarker of its own,
  \<^verbatim>\<open># 5 "gen.y"\<close>; the preprocessor, which reads linemarkers in its input, prints
  it again.
\<close>

definition linemarker_source :: bytes where
  "linemarker_source = linemarker 5 ''gen.y'' @ ''int x;'' @ [newline]"

definition linemarker_world :: env where
  "linemarker_world =
     world [(''main.cc'', linemarker_source)]
           [(''main.cc'', linemarker 1 ''main.cc'' @ linemarker_source)]"



subsection \<open>Files without directives\<close>

text \<open>
  A line of text as \<^verbatim>\<open>splitlines\<close> cuts it: it ends with its only newline and has
  no carriage return. A plain line is such a line that is no directive: its first
  character that is not white space is not \<^verbatim>\<open>#\<close>. The name of a header in
  \<^verbatim>\<open>#include "name"\<close> has no line end in it and decodes.
\<close>

definition text_line :: "bytes \<Rightarrow> bool" where
  "text_line l =
     (l \<noteq> [] \<and> last l = newline \<and> newline \<notin> set (butlast l) \<and> carriage_return \<notin> set l)"

definition plain_line :: "bytes \<Rightarrow> bool" where
  "plain_line l = (text_line l \<and> after_hash l = None)"

definition header_name :: "string \<Rightarrow> bool" where
  "header_name name = (newline \<notin> set name \<and> carriage_return \<notin> set name \<and> utf8_ok name)"

text \<open>
  The nested includes of the specification's fourth scenario: \<^verbatim>\<open>main.cc\<close> includes
  \<^verbatim>\<open>a.h\<close>, which includes \<^verbatim>\<open>b.h\<close> and then has a line of its own. The files have
  no comments, so the preprocessor prints each as it is, after a linemarker.
\<close>

definition nested_world :: env where
  "nested_world =
     world
       [(''main.cc'', include_quote ''a.h''),
        (''a.h'', include_quote ''b.h'' @ ''int a;'' @ [newline]),
        (''b.h'', ''int b;'' @ [newline])]
       [(''main.cc'', linemarker 1 ''main.cc'' @ include_quote ''a.h''),
        (''a.h'', linemarker 1 ''a.h'' @ include_quote ''b.h'' @ ''int a;'' @ [newline]),
        (''b.h'', linemarker 1 ''b.h'' @ ''int b;'' @ [newline])]"

text \<open>The output the scenario announces for it.\<close>

definition nested_announced :: "bytes list" where
  "nested_announced =
     [line_directive 1 ''main.cc'', line_directive 1 ''a.h'', line_directive 1 ''b.h'',
      ''int b;'' @ [newline], line_directive 2 ''a.h'', ''int a;'' @ [newline],
      line_directive 2 ''main.cc'']"

section \<open>Properties\<close>

subsection \<open>What a step and a call leave alone\<close>

lemma Bundler_line_fields [simp]:
  "path_stack (Bundler_line env k p s) = path_stack s"
  "pragma_once (Bundler_line env k p s) = pragma_once s"
  "pragma_once_system (Bundler_line env k p s) = pragma_once_system s"
  "iquotes (Bundler_line env k p s) = iquotes s"
  "compiler (Bundler_line env k p s) = compiler s"
  by (simp_all add: Bundler_line_def)

lemma emit_fields [simp]:
  "path_stack (emit l s) = path_stack s"
  "pragma_once (emit l s) = pragma_once s"
  "pragma_once_system (emit l s) = pragma_once_system s"
  "iquotes (emit l s) = iquotes s"
  "compiler (emit l s) = compiler s"
  "result_lines (emit l s) = result_lines s @ [l]"
  by (simp_all add: emit_def)

lemma non_guard_line_Continue:
  "non_guard_line env path i line u t st s = Continue st1 s1 \<Longrightarrow> grows s s1"
  by (auto simp: non_guard_line_def grows_def Let_def split: option.splits if_splits)

lemma process_line_Continue:
  "process_line env path i line u st s = Continue st1 s1 \<Longrightarrow> grows s s1"
  by (auto simp: process_line_def grows_def Let_def dest!: non_guard_line_Continue split: sum.splits if_splits)

lemma non_guard_line_Raise:
  "non_guard_line env path i line u t st s = Raise e \<Longrightarrow> e \<noteq> KeyError"
  by (auto simp: non_guard_line_def Let_def split: option.splits if_splits)

lemma nest_step_Inl: "nest_step path i u n = Inl e \<Longrightarrow> e \<noteq> KeyError"
  by (auto simp: nest_step_def Let_def split: if_splits)

lemma process_line_Raise:
  "process_line env path i line u st s = Raise e \<Longrightarrow> e \<noteq> KeyError"
  by (auto simp: process_line_def Let_def dest!: non_guard_line_Raise nest_step_Inl split: sum.splits if_splits)

lemma Bundler_resolve_Inl: "Bundler_resolve env s p f = Inl e \<Longrightarrow> e \<noteq> KeyError"
  by (auto simp: Bundler_resolve_def split: option.splits if_splits)

lemma read_lines_Inl: "read_lines env s p = Inl e \<Longrightarrow> e \<noteq> KeyError"
  by (auto simp: read_lines_def get_uncommented_code_def get_uncommented_code'_def check_compiler_def Let_def
      split: option.splits if_splits sum.splits)

lemma end_of_file_Inl: "end_of_file p n st \<noteq> Inl KeyError"
  by (auto simp: end_of_file_def)

lemma grows_refl [simp]: "grows s s"
  by (simp add: grows_def)

lemma grows_trans: "grows a b \<Longrightarrow> grows b c \<Longrightarrow> grows a c"
  by (auto simp: grows_def)

lemma grows_Bundler_line [simp]: "grows s (Bundler_line env k p t) = grows s t"
  by (simp add: grows_def)

lemma grows_Bundler_line_left [simp]: "grows (Bundler_line env k p s) t = grows s t"
  by (simp add: grows_def)

lemma update_process_lines_grows:
  "(\<forall>r s'. update n env path s = Some (r, s') \<longrightarrow> grows s s' \<and> r \<noteq> Inl KeyError)"
  "(\<forall>x s'. process_lines m env' path' i pairs st t = Some (x, s') \<longrightarrow> grows t s' \<and> x \<noteq> Raised KeyError)"
proof (induction n env path s and m env' path' i pairs st t rule: update_process_lines.induct)
  case (1 env path s)
  show ?case by simp
next
  case (2 n env path s)
  show ?case
  proof (intro allI impI)
    fix r s'
    assume run: "update (Suc n) env path s = Some (r, s')"
    show "grows s s' \<and> r \<noteq> Inl KeyError"
    proof (cases "fs_resolve env path \<in> pragma_once s")
      case True
      with run show ?thesis by auto
    next
      case seen: False
      show ?thesis
      proof (cases "path \<in> path_stack s")
        case True
        with run seen show ?thesis by auto
      next
        case fresh: False
        define s1 where "s1 = s\<lparr>path_stack := insert path (path_stack s)\<rparr>"
        show ?thesis
        proof (cases "read_lines env s1 path")
          case (Inl e)
          with run seen fresh read_lines_Inl[OF Inl] show ?thesis
            by (auto simp: s1_def[symmetric] Let_def) (auto simp: s1_def grows_def)
        next
          case (Inr pairs)
          note IH = 2[OF seen fresh s1_def Inr]
          from run seen fresh Inr obtain x s2 where
            loop: "process_lines n env path 0 pairs init_line_state (Bundler_line env 1 path s1) = Some (x, s2)"
            by (auto simp: s1_def[symmetric] Let_def split: option.splits)
          from IH loop have g: "grows s1 s2" and nk: "x \<noteq> Raised KeyError"
            by auto
          from g have mem: "path \<in> path_stack s2"
            by (simp add: grows_def s1_def)
          from run seen fresh Inr loop mem nk g show ?thesis
            by (cases x) (auto simp: s1_def[symmetric] Let_def end_of_file_Inl, auto simp: s1_def grows_def)
        qed
      qed
    qed
  qed
next
  case (3 n env path i st s)
  show ?case by simp
next
  case (4 n env path i line uncommented_line rest st s)
  show ?case
  proof (intro allI impI)
    fix x s'
    assume run: "process_lines n env path i ((line, uncommented_line) # rest) st s = Some (x, s')"
    show "grows s s' \<and> x \<noteq> Raised KeyError"
    proof (cases "process_line env path i line uncommented_line st s")
      case (Raise e)
      with run process_line_Raise[OF Raise] show ?thesis by auto
    next
      case Return
      with run show ?thesis by auto
    next
      case (Continue st1 s1)
      from run Continue have "process_lines n env path (i + 1) rest st1 s1 = Some (x, s')"
        by simp
      with 4(1)[OF Continue] have "grows s1 s'" "x \<noteq> Raised KeyError"
        by auto
      with process_line_Continue[OF Continue] show ?thesis
        by (auto intro: grows_trans)
    next
      case (Recurse included st1)
      show ?thesis
      proof (cases "Bundler_resolve env s included path")
        case (Inl e)
        with run Recurse Bundler_resolve_Inl[OF Inl] show ?thesis by auto
      next
        case (Inr found)
        from run Recurse Inr obtain r s1 where up: "update n env found s = Some (r, s1)"
          by (auto split: option.splits)
        from 4(2)[OF Recurse Inr] up have g1: "grows s s1" and nk: "r \<noteq> Inl KeyError"
          by auto
        show ?thesis
        proof (cases r)
          case (Inl e)
          with run Recurse Inr up g1 nk show ?thesis by auto
        next
          case r: (Inr u)
          from run Recurse Inr up r have
            rest: "process_lines n env path (i + 1) rest st1 (Bundler_line env (i + 2) path s1) = Some (x, s')"
            by simp
          from 4(3)[OF Recurse Inr up refl r] rest
          have "grows (Bundler_line env (i + 2) path s1) s'" "x \<noteq> Raised KeyError"
            by auto
          then have "grows s1 s'" "x \<noteq> Raised KeyError"
            by (auto simp: grows_def)
          with g1 show ?thesis by (auto intro: grows_trans)
        qed
      qed
    qed
  qed
qed

subsection \<open>Entry of \<^verbatim>\<open>update\<close>\<close>

text \<open>
  Claim C1. When the resolved path of the file is already in \<^verbatim>\<open>pragma_once\<close> (the
  set called seenGuarded), a call of \<^verbatim>\<open>update\<close> returns at once and normally, and the
  bundler it leaves is the one it got: nothing is appended to \<^verbatim>\<open>result_lines\<close>, and
  \<^verbatim>\<open>pragma_once\<close>, \<^verbatim>\<open>pragma_once_system\<close> and \<^verbatim>\<open>path_stack\<close> are unchanged. One level
  of calls is all it needs.
\<close>

theorem update_seen_guarded_noop:
  "fs_resolve env path \<in> pragma_once s \<Longrightarrow> update (Suc n) env path s = Some (Inr (), s)"
  by simp

lemma once_world_first_update:
  "update (Suc 0) once_world ''a.h'' (init_bundler [] ''g++'') = Some (Inr (), once_state)"
  by code_simp

theorem update_seen_guarded_noop_witness:
  "fs_resolve once_world ''a.h'' \<in> pragma_once once_state
   \<and> update (Suc 0) once_world ''a.h'' once_state = Some (Inr (), once_state)"
proof -
  have seen: "fs_resolve once_world ''a.h'' \<in> pragma_once once_state"
    by code_simp
  from update_seen_guarded_noop[OF seen, of 0] seen show ?thesis
    by simp
qed



subsection \<open>The shape of one pass through the loop body\<close>

lemma process_line_unfold:
  assumes "nest_step path i u (preprocess_if_nest st0) = Inr nest"
  shows "process_line env path i line u st0 s =
     (if match_pragma_once line then
        (if non_guard_line_found st0
         then Raise (BundleErrorAt path (int i + 1) ''#pragma once found in a non-first line'')
         else if include_guard_macro st0 \<noteq> None
         then Raise (BundleErrorAt path (int i + 1)
           ''#pragma once found in an include guard with #ifndef'')
         else if fs_resolve env path \<in> pragma_once s then Return
         else Continue (st0\<lparr>preprocess_if_nest := nest, pragma_once_found := True\<rparr>)
                (Bundler_line env (i + 2) path
                   (s\<lparr>pragma_once := insert (fs_resolve env path) (pragma_once s)\<rparr>)))
      else if \<not> pragma_once_found st0 \<and> \<not> non_guard_line_found st0
              \<and> include_guard_macro st0 = None \<and> match_ifndef u \<noteq> None
      then Continue (st0\<lparr>preprocess_if_nest := nest, include_guard_macro := match_ifndef u\<rparr>)
             (emit [newline] s)
      else if include_guard_macro st0 \<noteq> None \<and> \<not> include_guard_define_found st0
              \<and> match_define u \<noteq> None
              \<and> match_define u = include_guard_macro st0
      then Continue (st0\<lparr>preprocess_if_nest := nest, include_guard_define_found := True\<rparr>)
             (emit [newline]
                (s\<lparr>pragma_once := insert (fs_resolve env path) (pragma_once s)\<rparr>))
      else if include_guard_define_found st0 \<and> nest = 0
              \<and> \<not> include_guard_endif_found st0 \<and> match_endif u
      then Continue (st0\<lparr>preprocess_if_nest := nest, include_guard_endif_found := True\<rparr>)
             (emit [newline] s)
      else non_guard_line env path i line u (is_toplevel nest (include_guard_macro st0))
             (st0\<lparr>preprocess_if_nest := nest\<rparr>) s)"
  using assms by (simp add: process_line_def Let_def)

lemma process_line_nest_Inl:
  "nest_step path i u (preprocess_if_nest st0) = Inl e \<Longrightarrow>
     process_line env path i line u st0 s = Raise e"
  by (simp add: process_line_def)


lemma process_line_ContinueE:
  assumes step: "process_line env path i line u st0 s = Continue st1 s1"
  obtains
    (pragma) nest where
      "nest_step path i u (preprocess_if_nest st0) = Inr nest" "match_pragma_once line"
      "\<not> non_guard_line_found st0" "include_guard_macro st0 = None"
      "fs_resolve env path \<notin> pragma_once s"
      "st1 = st0\<lparr>preprocess_if_nest := nest, pragma_once_found := True\<rparr>"
      "s1 = Bundler_line env (i + 2) path
              (s\<lparr>pragma_once := insert (fs_resolve env path) (pragma_once s)\<rparr>)"
  | (guard_ifndef) nest where
      "nest_step path i u (preprocess_if_nest st0) = Inr nest" "\<not> match_pragma_once line"
      "\<not> pragma_once_found st0" "\<not> non_guard_line_found st0" "include_guard_macro st0 = None"
      "match_ifndef u \<noteq> None"
      "st1 = st0\<lparr>preprocess_if_nest := nest, include_guard_macro := match_ifndef u\<rparr>"
      "s1 = emit [newline] s"
  | (guard_define) nest where
      "nest_step path i u (preprocess_if_nest st0) = Inr nest" "\<not> match_pragma_once line"
      "include_guard_macro st0 \<noteq> None" "\<not> include_guard_define_found st0"
      "match_define u = include_guard_macro st0"
      "st1 = st0\<lparr>preprocess_if_nest := nest, include_guard_define_found := True\<rparr>"
      "s1 = emit [newline] (s\<lparr>pragma_once := insert (fs_resolve env path) (pragma_once s)\<rparr>)"
  | (guard_endif) nest where
      "nest_step path i u (preprocess_if_nest st0) = Inr nest" "\<not> match_pragma_once line"
      "include_guard_define_found st0" "nest = 0" "\<not> include_guard_endif_found st0"
      "match_endif u"
      "st1 = st0\<lparr>preprocess_if_nest := nest, include_guard_endif_found := True\<rparr>"
      "s1 = emit [newline] s"
  | (other) nest where
      "nest_step path i u (preprocess_if_nest st0) = Inr nest" "\<not> match_pragma_once line"
      "non_guard_line env path i line u (is_toplevel nest (include_guard_macro st0))
         (st0\<lparr>preprocess_if_nest := nest\<rparr>) s = Continue st1 s1"
proof -
  from step obtain nest where n: "nest_step path i u (preprocess_if_nest st0) = Inr nest"
    by (cases "nest_step path i u (preprocess_if_nest st0)") (simp_all add: process_line_nest_Inl)
  note eq = step[unfolded process_line_unfold[OF n]]
  show thesis
  proof (cases "match_pragma_once line")
    case True
    with eq show thesis
      using pragma[OF n True] by (simp split: if_splits)
  next
    case np: False
    note eq1 = eq[unfolded if_not_P[OF np]]
    show thesis
    proof (cases "\<not> pragma_once_found st0 \<and> \<not> non_guard_line_found st0
              \<and> include_guard_macro st0 = None \<and> match_ifndef u \<noteq> None")
      case True
      from eq1[unfolded if_P[OF True]] have "st1 = st0\<lparr>preprocess_if_nest := nest,
          include_guard_macro := match_ifndef u\<rparr>" "s1 = emit [newline] s"
        by simp_all
      with True guard_ifndef[OF n np] show thesis
        by blast
    next
      case c1: False
      note eq2 = eq1[unfolded if_not_P[OF c1]]
      show thesis
      proof (cases "include_guard_macro st0 \<noteq> None \<and> \<not> include_guard_define_found st0
              \<and> match_define u \<noteq> None \<and> match_define u = include_guard_macro st0")
        case True
        from eq2[unfolded if_P[OF True]] have "st1 = st0\<lparr>preprocess_if_nest := nest,
            include_guard_define_found := True\<rparr>"
          "s1 = emit [newline] (s\<lparr>pragma_once := insert (fs_resolve env path) (pragma_once s)\<rparr>)"
          by simp_all
        with True guard_define[OF n np] show thesis
          by blast
      next
        case c2: False
        note eq3 = eq2[unfolded if_not_P[OF c2]]
        show thesis
        proof (cases "include_guard_define_found st0 \<and> nest = 0
              \<and> \<not> include_guard_endif_found st0 \<and> match_endif u")
          case True
          from eq3[unfolded if_P[OF True]] have "st1 = st0\<lparr>preprocess_if_nest := nest,
              include_guard_endif_found := True\<rparr>" "s1 = emit [newline] s"
            by simp_all
          with True guard_endif[OF n np] show thesis
            by blast
        next
          case c3: False
          from other[OF n np eq3[unfolded if_not_P[OF c3]]] show thesis .
        qed
      qed
    qed
  qed
qed

lemma process_line_RecurseE:
  assumes step: "process_line env path i line u st0 s = Recurse inc st1"
  obtains nest where
      "nest_step path i u (preprocess_if_nest st0) = Inr nest" "\<not> match_pragma_once line"
      "non_guard_line env path i line u (is_toplevel nest (include_guard_macro st0))
         (st0\<lparr>preprocess_if_nest := nest\<rparr>) s = Recurse inc st1"
proof -
  from step obtain nest where n: "nest_step path i u (preprocess_if_nest st0) = Inr nest"
    by (cases "nest_step path i u (preprocess_if_nest st0)") (simp_all add: process_line_nest_Inl)
  note eq = step[unfolded process_line_unfold[OF n]]
  from eq have np: "\<not> match_pragma_once line"
    by (auto split: if_splits)
  with eq have "non_guard_line env path i line u
      (is_toplevel nest (include_guard_macro st0)) (st0\<lparr>preprocess_if_nest := nest\<rparr>) s
      = Recurse inc st1"
    by (simp split: if_splits)
  from that[OF n np this] show thesis .
qed



subsection \<open>The nesting counter\<close>

lemma startswith_Cons: "startswith r (c # p) = (\<exists>r'. r = c # r' \<and> startswith r' p)"
  by (cases r) (auto simp: startswith_def)

lemma startswith_Nil [simp]: "startswith r []"
  by (simp add: startswith_def)

lemma keyword_space_startswith: "keyword_space r kw \<Longrightarrow> startswith r kw"
  by (simp add: keyword_space_def)






lemma nest_step_other:
  "\<not> match_if u \<Longrightarrow> \<not> match_else u \<Longrightarrow> \<not> match_endif u \<Longrightarrow> nest_step path i u nest = Inr nest"
  by (simp add: nest_step_def)






subsection \<open>Unfolding a call and splitting the loop\<close>

lemma grows_path_stack: "grows s s' \<Longrightarrow> path_stack s' = path_stack s"
  by (simp add: grows_def)

lemma update_unfold:
  assumes seen: "fs_resolve env path \<notin> pragma_once s"
    and fresh: "path \<notin> path_stack s"
    and content: "read_lines env (s\<lparr>path_stack := insert path (path_stack s)\<rparr>) path = Inr pairs"
    and loop: "process_lines n env path 0 pairs init_line_state
                 (Bundler_line env 1 path (s\<lparr>path_stack := insert path (path_stack s)\<rparr>)) = Some (x, s2)"
  shows "update (Suc n) env path s =
           Some (case x of Raised e \<Rightarrow> Inl e | Returned \<Rightarrow> Inr ()
                   | Finished st \<Rightarrow> end_of_file path (length pairs) st,
                 s2\<lparr>path_stack := path_stack s\<rparr>)"
proof -
  from update_process_lines_grows(2)[of n env path 0 pairs init_line_state
      "Bundler_line env 1 path (s\<lparr>path_stack := insert path (path_stack s)\<rparr>)"] loop
  have "grows (s\<lparr>path_stack := insert path (path_stack s)\<rparr>) s2"
    by simp
  then have ps: "path_stack s2 = insert path (path_stack s)"
    by (simp add: grows_def)
  with fresh have "path \<in> path_stack s2" "path_stack s2 - {path} = path_stack s"
    by auto
  with seen fresh content loop show ?thesis
    by (cases x) (simp_all add: Let_def)
qed

lemma process_lines_append:
  "process_lines n env path i (pre @ post) st s =
     (case process_lines n env path i pre st s of
        Some (Finished st1, s1) \<Rightarrow> process_lines n env path (i + length pre) post st1 s1
      | other \<Rightarrow> other)"
proof (induction pre arbitrary: i st s)
  case Nil
  show ?case by simp
next
  case (Cons p pre)
  obtain line u where p: "p = (line, u)" by (cases p)
  show ?case
    unfolding p
    by (simp add: Cons.IH split: step.splits sum.splits option.splits prod.splits loop_exit.splits)
qed


subsection \<open>After \<^verbatim>\<open>#pragma once\<close>\<close>

lemma non_guard_line_pragma:
  "non_guard_line env path i line u t st s = Continue st1 s1 \<Longrightarrow>
     pragma_once_found st1 = pragma_once_found st
     \<and> (include_guard_macro st = None \<longrightarrow> include_guard_macro st1 = None)
     \<and> pragma_once s1 = pragma_once s"
  "non_guard_line env path i line u t st s = Recurse inc st1 \<Longrightarrow>
     pragma_once_found st1 = pragma_once_found st
     \<and> (include_guard_macro st = None \<longrightarrow> include_guard_macro st1 = None)"
  by (auto simp: non_guard_line_def Let_def split: option.splits if_splits)

lemma process_line_pragma:
  assumes inv: "pragma_once_found st \<longrightarrow> include_guard_macro st = None \<and> fs_resolve env path \<in> pragma_once s"
  shows "process_line env path i line u st s = Continue st1 s1 \<Longrightarrow>
           pragma_once_found st1 \<longrightarrow> include_guard_macro st1 = None \<and> fs_resolve env path \<in> pragma_once s1"
    and "process_line env path i line u st s = Recurse inc st1 \<Longrightarrow>
           pragma_once_found st1 \<longrightarrow> include_guard_macro st1 = None \<and> fs_resolve env path \<in> pragma_once s"
proof -
  assume step: "process_line env path i line u st s = Continue st1 s1"
  from step show "pragma_once_found st1 \<longrightarrow> include_guard_macro st1 = None \<and> fs_resolve env path \<in> pragma_once s1"
  proof (cases rule: process_line_ContinueE)
    case (pragma nest)
    then show ?thesis by simp
  next
    case (guard_ifndef nest)
    then show ?thesis by simp
  next
    case (guard_define nest)
    with inv show ?thesis by auto
  next
    case (guard_endif nest)
    with inv show ?thesis by simp
  next
    case (other nest)
    from non_guard_line_pragma(1)[OF other(3)] inv show ?thesis by simp
  qed
next
  assume step: "process_line env path i line u st s = Recurse inc st1"
  from step show "pragma_once_found st1 \<longrightarrow> include_guard_macro st1 = None \<and> fs_resolve env path \<in> pragma_once s"
  proof (cases rule: process_line_RecurseE)
    case (1 nest)
    from non_guard_line_pragma(2)[OF 1(3)] inv show ?thesis by simp
  qed
qed

lemma process_lines_pragma:
  "process_lines n env path i pairs st s = Some (Finished st', s') \<Longrightarrow>
   (pragma_once_found st \<longrightarrow> include_guard_macro st = None \<and> fs_resolve env path \<in> pragma_once s) \<Longrightarrow>
   (pragma_once_found st' \<longrightarrow> include_guard_macro st' = None \<and> fs_resolve env path \<in> pragma_once s')"
proof (induction pairs arbitrary: i st s)
  case Nil
  then show ?case by simp
next
  case (Cons p pairs)
  obtain line u where p: "p = (line, u)" by (cases p)
  show ?case
  proof (cases "process_line env path i line u st s")
    case (Raise e)
    with Cons.prems p show ?thesis by simp
  next
    case Return
    with Cons.prems p show ?thesis by simp
  next
    case (Continue st1 s1)
    with Cons.prems p have run: "process_lines n env path (i + 1) pairs st1 s1 = Some (Finished st', s')"
      by simp
    from Cons.IH[OF run] process_line_pragma(1)[OF Cons.prems(2) Continue] show ?thesis
      by blast
  next
    case (Recurse inc st1)
    with Cons.prems p obtain found s1 u' where
      up: "update n env found s = Some (Inr u', s1)"
      and run: "process_lines n env path (i + 1) pairs st1 (Bundler_line env (i + 2) path s1) = Some (Finished st', s')"
      by (auto split: sum.splits option.splits)
    from update_process_lines_grows(1)[of n env found s] up have "pragma_once s \<subseteq> pragma_once s1"
      by (auto simp: grows_def)
    with process_line_pragma(2)[OF Cons.prems(2) Recurse]
    have "pragma_once_found st1 \<longrightarrow> include_guard_macro st1 = None
            \<and> fs_resolve env path \<in> pragma_once (Bundler_line env (i + 2) path s1)"
      by auto
    from Cons.IH[OF run this] show ?thesis .
  qed
qed


lemma process_line_pragma_once:
  assumes "match_pragma_once line"
    and "nest_step path i u (preprocess_if_nest st) = Inr nest"
    and "\<not> non_guard_line_found st"
    and "include_guard_macro st = None"
  shows "process_line env path i line u st s =
           (if fs_resolve env path \<in> pragma_once s then Return
            else Continue (st\<lparr>preprocess_if_nest := nest, pragma_once_found := True\<rparr>)
                   (Bundler_line env (i + 2) path
                      (s\<lparr>pragma_once := insert (fs_resolve env path) (pragma_once s)\<rparr>)))"
  using assms by (simp add: process_line_unfold)

subsection \<open>Lines that are includes\<close>

lemma match_include_keyword:
  "match_include opening closing u = Some name \<Longrightarrow> \<exists>r. after_hash u = Some r \<and> startswith r ''include''"
  by (auto simp: match_include_def split: option.splits if_splits)

lemma match_include_exclusive:
  assumes "match_include opening closing u = Some name"
  shows "\<not> match_if u" "\<not> match_else u" "\<not> match_endif u" "match_ifndef u = None"
    "match_define u = None" "u \<noteq> []"
proof -
  from match_include_keyword[OF assms] obtain r where
    r: "after_hash u = Some r" "startswith r ''include''"
    by blast
  from r show "\<not> match_if u" "\<not> match_else u" "\<not> match_endif u"
    by (auto simp: match_if_def match_else_def match_endif_def startswith_Cons
        dest!: keyword_space_startswith)
  from r show "match_ifndef u = None" "match_define u = None"
    by (auto simp: match_ifndef_def match_define_def match_keyword_ident_def startswith_Cons
        dest!: keyword_space_startswith)
  from r show "u \<noteq> []"
    by (auto simp: after_hash_def)
qed


subsection \<open>Files of plain lines and includes\<close>

lemma splitlines_from_body:
  "newline \<notin> set body \<Longrightarrow> carriage_return \<notin> set body \<Longrightarrow>
     splitlines_from cur (body @ newline # rest) = (cur @ body @ [newline]) # splitlines_from [] rest"
  by (induction body arbitrary: cur) auto

lemma text_line_split: "text_line l \<Longrightarrow> \<exists>body. l = body @ [newline] \<and> newline \<notin> set body \<and> carriage_return \<notin> set body"
proof -
  assume t: "text_line l"
  then have "l = butlast l @ [newline]"
    by (metis append_butlast_last_id text_line_def)
  moreover from t have "newline \<notin> set (butlast l)" "carriage_return \<notin> set (butlast l)"
    by (auto simp: text_line_def dest: in_set_butlastD)
  ultimately show ?thesis by blast
qed

lemma splitlines_from_text_line:
  "text_line l \<Longrightarrow> splitlines_from [] (l @ rest) = l # splitlines_from [] rest"
  using text_line_split[of l] splitlines_from_body[of _ "[]" rest] by auto

lemma splitlines_text_lines: "list_all text_line ls \<Longrightarrow> splitlines (concat ls) = ls"
  unfolding splitlines_def
  by (induction ls) (simp_all add: splitlines_from_text_line)

lemma endswith_newline_text_lines:
  "list_all text_line ls \<Longrightarrow> ls \<noteq> [] \<Longrightarrow> endswith_newline (concat ls)"
proof (induction ls)
  case Nil
  then show ?case by simp
next
  case (Cons l ls)
  show ?case
  proof (cases "ls = []")
    case True
    with Cons.prems show ?thesis by (simp add: endswith_newline_def text_line_def)
  next
    case False
    with Cons have "endswith_newline (concat ls)" by simp
    then show ?thesis by (simp add: endswith_newline_def)
  qed
qed

lemma read_lines_text_lines:
  assumes "fs_read env p = Some (concat ls)" "list_all text_line ls" "ls \<noteq> []"
    and "get_uncommented_code env p (iquotes s) (compiler s) = Inr (concat ls)"
  shows "read_lines env s p = Inr (zip ls ls)"
  using assms
  by (simp add: read_lines_def endswith_newline_text_lines splitlines_text_lines Let_def)


lemma after_hash_None_matchers:
  assumes "after_hash l = None"
  shows "\<not> match_if l" "\<not> match_else l" "\<not> match_endif l" "\<not> match_pragma_once l"
    "match_ifndef l = None" "match_define l = None" "match_include_angle l = None"
    "match_include_quote l = None"
  using assms
  by (simp_all add: match_if_def match_else_def match_endif_def match_pragma_once_def
      match_ifndef_def match_define_def match_keyword_ident_def match_include_angle_def
      match_include_quote_def match_include_def)

lemma line_state_nest_same [simp]: "st\<lparr>preprocess_if_nest := preprocess_if_nest st\<rparr> = st"
  by simp

lemma process_line_plain:
  assumes "plain_line l" "include_guard_macro st = None" "\<not> include_guard_endif_found st"
  shows "process_line env p i l l st s = Continue (st\<lparr>non_guard_line_found := True\<rparr>) (emit l s)"
proof -
  from assms(1) have ah: "after_hash l = None" and ne: "l \<noteq> []"
    by (simp_all add: plain_line_def text_line_def)
  note m = after_hash_None_matchers[OF ah]
  from m have n: "nest_step p i l (preprocess_if_nest st) = Inr (preprocess_if_nest st)"
    by (simp add: nest_step_other)
  show ?thesis
    unfolding process_line_unfold[OF n]
    using m ne assms(2,3) by (simp add: non_guard_line_def Let_def)
qed

lemma process_lines_plain:
  assumes "list_all plain_line ls" "include_guard_macro st = None" "\<not> include_guard_endif_found st"
  shows "process_lines n env p i (zip ls ls) st s =
           Some (Finished (if ls = [] then st else st\<lparr>non_guard_line_found := True\<rparr>),
                 s\<lparr>result_lines := result_lines s @ ls\<rparr>)"
  using assms
proof (induction ls arbitrary: i st s)
  case Nil
  show ?case by simp
next
  case (Cons l ls)
  from Cons.prems have l: "plain_line l" and ls: "list_all plain_line ls"
    by simp_all
  note step = process_line_plain[OF l Cons.prems(2,3), of env p i s]
  have "process_lines n env p (i + 1) (zip ls ls) (st\<lparr>non_guard_line_found := True\<rparr>) (emit l s) =
      Some (Finished (if ls = [] then st\<lparr>non_guard_line_found := True\<rparr>
                      else st\<lparr>non_guard_line_found := True\<rparr>\<lparr>non_guard_line_found := True\<rparr>),
            (emit l s)\<lparr>result_lines := result_lines (emit l s) @ ls\<rparr>)"
    using Cons.prems(2,3) by (intro Cons.IH[OF ls]) simp_all
  with step show ?case
    by (simp add: emit_def)
qed

lemma takeWhile_until:
  "x \<notin> set xs \<Longrightarrow> takeWhile (\<lambda>y. y \<noteq> x) (xs @ ys) = xs @ takeWhile (\<lambda>y. y \<noteq> x) ys"
  by (induction xs) auto

lemma include_quote_match:
  assumes "header_name name"
  shows "match_include_quote (include_quote name) = Some name"
proof -
  from assms have nn: "newline \<notin> set name"
    by (simp add: header_name_def)
  have ah: "after_hash (include_quote name) = Some (''include '' @ [dquote] @ name @ [dquote] @ [newline])"
    by (simp add: after_hash_def include_quote_def is_space_def)
  have tw: "takeWhile (\<lambda>x. x \<noteq> newline) (name @ [dquote, newline]) = name @ [dquote]"
    using nn by (simp add: takeWhile_until dquote_def newline_def)
  show ?thesis
    unfolding match_include_quote_def match_include_def ah
    using tw by (simp add: startswith_def is_space_def dquote_def)
qed

lemma include_quote_not_pragma: "\<not> match_pragma_once (include_quote name)"
  by (simp add: match_pragma_once_def after_hash_def include_quote_def is_space_def
      keyword_space_def startswith_def)

lemma include_quote_not_angle: "match_include_angle (include_quote name) = None"
  by (simp add: match_include_angle_def match_include_def after_hash_def include_quote_def
      is_space_def startswith_def dquote_def)

lemma include_quote_text_line: "header_name name \<Longrightarrow> text_line (include_quote name)"
  by (auto simp: header_name_def text_line_def include_quote_def butlast_append
      newline_def carriage_return_def dquote_def)

lemma process_line_include_quote:
  assumes "header_name name" "include_guard_macro st = None" "\<not> include_guard_endif_found st"
    "preprocess_if_nest st = 0"
  shows "process_line env p i (include_quote name) (include_quote name) st s
           = Recurse name (st\<lparr>non_guard_line_found := True\<rparr>)"
proof -
  note q = include_quote_match[OF assms(1)]
  then have inc: "match_include dquote dquote (include_quote name) = Some name"
    by (simp add: match_include_quote_def)
  note ex = match_include_exclusive[OF inc]
  from ex have n: "nest_step p i (include_quote name) (preprocess_if_nest st) = Inr (preprocess_if_nest st)"
    by (simp add: nest_step_other)
  from assms(1) have u: "utf8_ok name"
    by (simp add: header_name_def)
  show ?thesis
    unfolding process_line_unfold[OF n]
    using ex q u assms(2-4) include_quote_not_pragma[of name] include_quote_not_angle[of name]
    by (simp add: non_guard_line_def Let_def is_toplevel_def)
qed


lemma line_directive_startswith: "startswith (line_directive k name) ''#line ''"
  by (simp add: line_directive_def startswith_def)

lemma plain_line_not_directive: "plain_line l \<Longrightarrow> \<not> startswith l ''#line ''"
  by (auto simp: plain_line_def after_hash_def startswith_Cons is_space_def)

lemma pop_line_directives_Nil: "pop_line_directives [] = []"
  by (simp add: pop_line_directives.simps)

lemma pop_line_directives_directive:
  "pop_line_directives (xs @ [line_directive k name]) = pop_line_directives xs"
  by (subst pop_line_directives.simps) (simp add: line_directive_startswith)

lemma pop_line_directives_plain:
  "ls \<noteq> [] \<Longrightarrow> list_all plain_line ls \<Longrightarrow> pop_line_directives (xs @ ls) = xs @ ls"
proof -
  assume ne: "ls \<noteq> []" and pl: "list_all plain_line ls"
  then have "plain_line (last ls)"
    by (simp add: list_all_iff)
  then have "\<not> startswith (last (xs @ ls)) ''#line ''"
    using ne by (simp add: plain_line_not_directive)
  then show ?thesis
    by (subst pop_line_directives.simps) simp
qed

lemma Bundler_resolve_iquotes:
  "iquotes s = iquotes t \<Longrightarrow> Bundler_resolve env s name p = Bundler_resolve env t name p"
  by (simp add: Bundler_resolve_def)

lemma plain_text_lines: "list_all plain_line ls \<Longrightarrow> list_all text_line ls"
  by (simp add: list_all_iff plain_line_def)

lemma update_plain:
  assumes seen: "fs_resolve env p \<notin> pragma_once s"
    and fresh: "p \<notin> path_stack s"
    and content: "fs_read env p = Some (concat ls)"
    and lines: "list_all plain_line ls" "ls \<noteq> []"
    and view: "get_uncommented_code env p (iquotes s) (compiler s) = Inr (concat ls)"
  shows "update (Suc n) env p s =
           Some (Inr (),
                 s\<lparr>result_lines :=
                     pop_line_directives (result_lines s) @ [line_directive 1 (shown_path env p)] @ ls\<rparr>)"
proof -
  let ?s1 = "s\<lparr>path_stack := insert p (path_stack s)\<rparr>"
  let ?st = "init_line_state\<lparr>non_guard_line_found := True\<rparr>"
  from view have "get_uncommented_code env p (iquotes ?s1) (compiler ?s1) = Inr (concat ls)"
    by simp
  from read_lines_text_lines[OF content plain_text_lines[OF lines(1)] lines(2) this]
  have rd: "read_lines env ?s1 p = Inr (zip ls ls)" .
  have loop: "process_lines n env p 0 (zip ls ls) init_line_state (Bundler_line env 1 p ?s1) =
      Some (Finished ?st,
            (Bundler_line env 1 p ?s1)\<lparr>result_lines := result_lines (Bundler_line env 1 p ?s1) @ ls\<rparr>)"
    using process_lines_plain[OF lines(1), of init_line_state n env p 0 "Bundler_line env 1 p ?s1"] lines(2)
    by (simp add: init_line_state_def)
  from update_unfold[OF seen fresh rd loop] show ?thesis
    by (simp add: end_of_file_def init_line_state_def Bundler_line_def)
qed

lemma update_including:
  assumes seen: "fs_resolve env p \<notin> pragma_once s"
    and fresh: "p \<notin> path_stack s"
    and name: "header_name name"
    and content: "fs_read env p = Some (include_quote name @ concat ls)"
    and lines: "list_all plain_line ls"
    and view: "get_uncommented_code env p (iquotes s) (compiler s)
                 = Inr (include_quote name @ concat ls)"
    and found: "Bundler_resolve env s name p = Inr q"
    and inner: "update n env q (Bundler_line env 1 p (s\<lparr>path_stack := insert p (path_stack s)\<rparr>))
                  = Some (Inr (), t)"
  shows "update (Suc n) env p s =
           Some (Inr (),
                 t\<lparr>path_stack := path_stack s,
                   result_lines :=
                     pop_line_directives (result_lines t) @ [line_directive 2 (shown_path env p)] @ ls\<rparr>)"
proof -
  let ?s1 = "s\<lparr>path_stack := insert p (path_stack s)\<rparr>"
  let ?sx = "Bundler_line env 1 p ?s1"
  let ?st = "init_line_state\<lparr>non_guard_line_found := True\<rparr>"
  let ?all = "include_quote name # ls"
  have tl: "list_all text_line ?all"
    using include_quote_text_line[OF name] plain_text_lines[OF lines] by simp
  from content have c: "fs_read env p = Some (concat ?all)"
    by simp
  from view have v: "get_uncommented_code env p (iquotes ?s1) (compiler ?s1) = Inr (concat ?all)"
    by simp
  from read_lines_text_lines[OF c tl _ v]
  have rd: "read_lines env ?s1 p = Inr (zip ?all ?all)"
    by simp
  have step: "process_line env p 0 (include_quote name) (include_quote name) init_line_state ?sx
      = Recurse name ?st"
    by (rule process_line_include_quote[OF name]) (simp_all add: init_line_state_def)
  from found have res: "Bundler_resolve env ?sx name p = Inr q"
    using Bundler_resolve_iquotes[of ?sx s env name p] by simp
  have rest: "process_lines n env p (0 + 1) (zip ls ls) ?st (Bundler_line env (0 + 2) p t) =
      Some (Finished (if ls = [] then ?st else ?st\<lparr>non_guard_line_found := True\<rparr>),
            (Bundler_line env (0 + 2) p t)
              \<lparr>result_lines := result_lines (Bundler_line env (0 + 2) p t) @ ls\<rparr>)"
    by (rule process_lines_plain[OF lines]) (simp_all add: init_line_state_def)
  have loop: "process_lines n env p 0 (zip ?all ?all) init_line_state ?sx =
      Some (Finished ?st,
            (Bundler_line env (0 + 2) p t)
              \<lparr>result_lines := result_lines (Bundler_line env (0 + 2) p t) @ ls\<rparr>)"
    using step res inner rest by simp
  note u = update_unfold[OF seen fresh rd loop]
  have r: "(case Finished ?st of Raised e \<Rightarrow> Inl e | Returned \<Rightarrow> Inr ()
            | Finished st \<Rightarrow> end_of_file p (length (zip ?all ?all)) st) = Inr ()"
    by (simp add: end_of_file_def init_line_state_def)
  have e: "(Bundler_line env (0 + 2) p t)
              \<lparr>result_lines := result_lines (Bundler_line env (0 + 2) p t) @ ls\<rparr>
              \<lparr>path_stack := path_stack s\<rparr>
           = t\<lparr>path_stack := path_stack s,
               result_lines :=
                 pop_line_directives (result_lines t) @ [line_directive 2 (shown_path env p)] @ ls\<rparr>"
    by (simp add: Bundler_line_def numeral_2_eq_2)
  from u show ?thesis
    unfolding r e .
qed


lemma result_lines_Bundler_line:
  "result_lines (Bundler_line env k p s) =
     pop_line_directives (result_lines s) @ [line_directive k (shown_path env p)]"
  by (simp add: Bundler_line_def)

lemma pop_line_directives_single: "pop_line_directives [line_directive k name] = []"
  using pop_line_directives_directive[of "[]" k name] by (simp add: pop_line_directives_Nil)


subsection \<open>The resolver\<close>

lemma resolve_iquotes_find:
  "resolve_iquotes env dirs header
     = map_option (fs_resolve env) (find (fs_exists env) (map (\<lambda>dir. fs_join env dir header) dirs))"
  by (induction dirs) auto


text \<open>
  Claim C8. \<^verbatim>\<open>_resolve(header, included_from)\<close> does what the specification says
  of the resolver: among the directory of the including file joined with the header
  and then the search directories joined with the header, in their order, it returns
  the first that exists, resolved; when none exists it raises
  \<^verbatim>\<open>BundleErrorAt(header, -1, "no such header")\<close>, which names the header.
\<close>

theorem Bundler_resolve_refines:
  "Bundler_resolve env s header including = resolve_spec env (iquotes s) header including"
  by (simp add: Bundler_resolve_def resolve_spec_def resolve_candidates_def resolve_iquotes_find
      split: option.splits)

subsection \<open>Conditional nesting\<close>




subsection \<open>\<^verbatim>\<open>#pragma once\<close>\<close>

text \<open>
  Claim C5, as the code has it. When line \<open>i\<close> (counted from 0) is recognised as
  \<^verbatim>\<open>#pragma once\<close>, no non-guard line and no \<^verbatim>\<open>#ifndef\<close> guard candidate came before,
  the resolved path of the file is not yet in \<^verbatim>\<open>pragma_once\<close> and the nesting counter
  raises no error on the line, the loop body sets \<^verbatim>\<open>pragma_once_found\<close>, adds the
  resolved path to \<^verbatim>\<open>pragma_once\<close> and calls \<^verbatim>\<open>_line(i + 2, path)\<close>: the
  \<^verbatim>\<open>#line\<close> directives at the end of the output are popped and \<^verbatim>\<open>#line i+2\<close> is
  appended. Nothing else is written: the line leaves no blank line behind.
\<close>

theorem pragma_once_registers:
  assumes "match_pragma_once line"
    and "nest_step path i u (preprocess_if_nest st) = Inr nest"
    and "\<not> non_guard_line_found st"
    and "include_guard_macro st = None"
    and "fs_resolve env path \<notin> pragma_once s"
  shows "process_line env path i line u st s =
           Continue (st\<lparr>preprocess_if_nest := nest, pragma_once_found := True\<rparr>)
             (s\<lparr>pragma_once := insert (fs_resolve env path) (pragma_once s),
                result_lines := pop_line_directives (result_lines s)
                                  @ [line_directive (i + 2) (shown_path env path)]\<rparr>)"
  using assms by (simp add: process_line_pragma_once Bundler_line_def)

theorem pragma_once_registers_witness:
  "match_pragma_once pragma_line
   \<and> nest_step ''a.h'' 0 [newline] (preprocess_if_nest init_line_state) = Inr 0
   \<and> \<not> non_guard_line_found init_line_state
   \<and> include_guard_macro init_line_state = None
   \<and> fs_resolve once_world ''a.h'' \<notin> pragma_once once_entry
   \<and> process_line once_world ''a.h'' 0 pragma_line [newline] init_line_state once_entry =
           Continue (init_line_state\<lparr>preprocess_if_nest := 0, pragma_once_found := True\<rparr>)
             (once_entry\<lparr>pragma_once := insert (fs_resolve once_world ''a.h'') (pragma_once once_entry),
                result_lines := pop_line_directives (result_lines once_entry)
                                  @ [line_directive (0 + 2) (shown_path once_world ''a.h'')]\<rparr>)"
proof -
  have h1: "match_pragma_once pragma_line" by code_simp
  have h2: "nest_step ''a.h'' 0 [newline] (preprocess_if_nest init_line_state) = Inr 0" by code_simp
  have h3: "\<not> non_guard_line_found init_line_state" by code_simp
  have h4: "include_guard_macro init_line_state = None" by code_simp
  have h5: "fs_resolve once_world ''a.h'' \<notin> pragma_once once_entry" by code_simp
  from pragma_once_registers[OF h1 h2 h3 h4 h5] h1 h2 h3 h4 h5 show ?thesis
    by blast
qed


text \<open>
  The claim as it was stated asks for a blank line in the place of the pragma. The
  header of \<open>once_world\<close> is \<^verbatim>\<open>#pragma once\<close> followed by \<^verbatim>\<open>int x;\<close>: its bundle is
  the directive \<^verbatim>\<open>#line 2 "a.h"\<close> and the line \<^verbatim>\<open>int x;\<close>, with no blank line, and the
  pass over the pragma line turns the output \<^verbatim>\<open>#line 1 "a.h"\<close> into \<^verbatim>\<open>#line 2 "a.h"\<close>.
\<close>

theorem pragma_once_placeholder_counterexample:
  "update (Suc 0) once_world ''a.h'' (init_bundler [] ''g++'') = Some (Inr (), once_state)
   \<and> result_lines once_state = [line_directive 2 ''a.h'', ''int x;'' @ [newline]]
   \<and> [newline] \<notin> set (result_lines once_state)
   \<and> process_line once_world ''a.h'' 0 pragma_line [newline] init_line_state once_entry
       = Continue (init_line_state\<lparr>pragma_once_found := True\<rparr>)
           (once_entry\<lparr>pragma_once := {''a.h''}, result_lines := [line_directive 2 ''a.h'']\<rparr>)"
  by code_simp


text \<open>
  Claim C10. A file is read whose lines are \<open>pre\<close>, then a line recognised as
  \<^verbatim>\<open>#pragma once\<close>, then \<open>rest\<close>. When the loop has gone through \<open>pre\<close> with an
  earlier \<^verbatim>\<open>#pragma once\<close> found and no non-guard line since, \<^verbatim>\<open>update\<close> returns at
  the second pragma without an exception, whatever \<open>rest\<close> is: none of its lines is
  written, and the output is the one the loop had after \<open>pre\<close>.
\<close>

theorem second_pragma_once_returns:
  assumes seen: "fs_resolve env path \<notin> pragma_once s"
    and fresh: "path \<notin> path_stack s"
    and content: "read_lines env (s\<lparr>path_stack := insert path (path_stack s)\<rparr>) path
                 = Inr (pre @ (line, u) # rest)"
    and before: "process_lines n env path 0 pre init_line_state
                   (Bundler_line env 1 path (s\<lparr>path_stack := insert path (path_stack s)\<rparr>))
                 = Some (Finished st, s1)"
    and earlier: "pragma_once_found st"
    and no_content: "\<not> non_guard_line_found st"
    and second: "match_pragma_once line"
    and nest: "nest_step path (length pre) u (preprocess_if_nest st) = Inr nest"
  shows "update (Suc n) env path s = Some (Inr (), s1\<lparr>path_stack := path_stack s\<rparr>)"
proof -
  from process_lines_pragma[OF before] earlier
  have macro: "include_guard_macro st = None" and reg: "fs_resolve env path \<in> pragma_once s1"
    by (simp_all add: init_line_state_def)
  from process_line_pragma_once[OF second nest no_content macro, of env s1] reg
  have "process_line env path (length pre) line u st s1 = Return"
    by simp
  with before have "process_lines n env path 0 (pre @ (line, u) # rest) init_line_state
      (Bundler_line env 1 path (s\<lparr>path_stack := insert path (path_stack s)\<rparr>)) = Some (Returned, s1)"
    by (simp add: process_lines_append)
  from update_unfold[OF seen fresh content this] show ?thesis
    by simp
qed


theorem second_pragma_once_returns_witness:
  "fs_resolve twice_world ''a.h'' \<notin> pragma_once (init_bundler [] ''g++'')
   \<and> ''a.h'' \<notin> path_stack (init_bundler [] ''g++'')
   \<and> read_lines twice_world
         ((init_bundler [] ''g++'')\<lparr>path_stack := insert ''a.h'' (path_stack (init_bundler [] ''g++''))\<rparr>)
         ''a.h''
       = Inr ([(pragma_line, [newline])] @ (pragma_line, [newline]) # [(code_line, code_line)])
   \<and> process_lines 0 twice_world ''a.h'' 0 [(pragma_line, [newline])] init_line_state
         (Bundler_line twice_world 1 ''a.h''
            ((init_bundler [] ''g++'')\<lparr>path_stack := insert ''a.h'' (path_stack (init_bundler [] ''g++''))\<rparr>))
       = Some (Finished (init_line_state\<lparr>pragma_once_found := True\<rparr>), twice_after_first)
   \<and> pragma_once_found (init_line_state\<lparr>pragma_once_found := True\<rparr>)
   \<and> \<not> non_guard_line_found (init_line_state\<lparr>pragma_once_found := True\<rparr>)
   \<and> match_pragma_once pragma_line
   \<and> nest_step ''a.h'' (length [(pragma_line, [newline])]) [newline]
         (preprocess_if_nest (init_line_state\<lparr>pragma_once_found := True\<rparr>)) = Inr 0
   \<and> update (Suc 0) twice_world ''a.h'' (init_bundler [] ''g++'')
       = Some (Inr (), twice_after_first\<lparr>path_stack := path_stack (init_bundler [] ''g++'')\<rparr>)
   \<and> result_lines (twice_after_first\<lparr>path_stack := path_stack (init_bundler [] ''g++'')\<rparr>)
       = [line_directive 2 ''a.h'']"
proof -
  let ?s = "init_bundler [] ''g++''"
  let ?st = "init_line_state\<lparr>pragma_once_found := True\<rparr>"
  have h1: "fs_resolve twice_world ''a.h'' \<notin> pragma_once ?s" by code_simp
  have h2: "''a.h'' \<notin> path_stack ?s" by code_simp
  have h3: "read_lines twice_world (?s\<lparr>path_stack := insert ''a.h'' (path_stack ?s)\<rparr>) ''a.h''
       = Inr ([(pragma_line, [newline])] @ (pragma_line, [newline]) # [(code_line, code_line)])"
    by code_simp
  have h4: "process_lines 0 twice_world ''a.h'' 0 [(pragma_line, [newline])] init_line_state
         (Bundler_line twice_world 1 ''a.h'' (?s\<lparr>path_stack := insert ''a.h'' (path_stack ?s)\<rparr>))
       = Some (Finished ?st, twice_after_first)"
    by code_simp
  have h5: "pragma_once_found ?st" by code_simp
  have h6: "\<not> non_guard_line_found ?st" by code_simp
  have h7: "match_pragma_once pragma_line" by code_simp
  have h8: "nest_step ''a.h'' (length [(pragma_line, [newline])]) [newline]
         (preprocess_if_nest ?st) = Inr 0"
    by code_simp
  have h9: "result_lines (twice_after_first\<lparr>path_stack := path_stack ?s\<rparr>) = [line_directive 2 ''a.h'']"
    by code_simp
  from second_pragma_once_returns[OF h1 h2 h3 h4 h5 h6 h7 h8] h1 h2 h3 h4 h5 h6 h7 h8 h9
  show ?thesis
    by blast
qed

subsection \<open>System includes\<close>




subsection \<open>Two defects\<close>

text \<open>
  Claim C2 says that a line is at top level at depth 1 only once the \<^verbatim>\<open>#define\<close> of
  the include guard has been read, and that \<^verbatim>\<open>#include "..."\<close> anywhere else inside
  a conditional is refused. The code takes \<^verbatim>\<open>is_toplevel\<close> from
  \<^verbatim>\<open>include_guard_macro is not None\<close>, which holds from the \<^verbatim>\<open>#ifndef\<close> on, and
  computes it before the same pass drops the candidate for want of a \<^verbatim>\<open>#define\<close>.
  On the file of \<open>ifndef_include_world\<close> (\<^verbatim>\<open>#ifndef ONLINE_JUDGE\<close>,
  \<^verbatim>\<open>#include "debug.h"\<close>, \<^verbatim>\<open>#endif\<close>, \<^verbatim>\<open>int main() {}\<close>) the include inside the
  conditional is expanded and no exception is raised; the bundle has lost the
  \<^verbatim>\<open>#ifndef\<close> and kept the \<^verbatim>\<open>#endif\<close>.
\<close>

theorem include_under_unguarded_ifndef_is_expanded:
  "update (Suc (Suc 0)) ifndef_include_world ''main.cc'' (init_bundler [] ''g++'')
     = Some (Inr (),
         (init_bundler [] ''g++'')
           \<lparr>result_lines :=
              [line_directive 1 ''main.cc'', [newline], line_directive 1 ''debug.h'',
               ''int dbg;'' @ [newline], line_directive 3 ''main.cc'', ''#endif'' @ [newline],
               ''int main() {}'' @ [newline]]\<rparr>)
   \<and> is_toplevel 1 (Some ''ONLINE_JUDGE'')
   \<and> process_line ifndef_include_world ''main.cc'' 1 (include_quote ''debug.h'')
         (include_quote ''debug.h'')
         (init_line_state\<lparr>include_guard_macro := Some ''ONLINE_JUDGE'', preprocess_if_nest := 1\<rparr>)
         ((init_bundler [] ''g++'')\<lparr>path_stack := {''main.cc''},
             result_lines := [line_directive 1 ''main.cc'', [newline]]\<rparr>)
       = Recurse ''debug.h''
           (init_line_state\<lparr>non_guard_line_found := True, preprocess_if_nest := 1\<rparr>)"
  by code_simp


text \<open>
  What holds of the code: where its own \<^verbatim>\<open>is_toplevel\<close> is false, a line
  \<^verbatim>\<open>#include "..."\<close> is refused.
\<close>

lemma include_quote_in_conditional_raises:
  assumes inc: "match_include_quote u = Some name"
    and np: "\<not> match_pragma_once line"
    and dec: "utf8_ok name"
    and nt: "\<not> is_toplevel (preprocess_if_nest st) (include_guard_macro st)"
  shows "process_line env path i line u st s =
           Raise (BundleErrorAt path (int i + 1)
             (if include_guard_endif_found st then ''found codes out of include guard''
              else ''unable to process #include in #if / #ifdef / #ifndef other than include guards''))"
proof -
  from inc have m: "match_include dquote dquote u = Some name"
    by (simp add: match_include_quote_def)
  note ex = match_include_exclusive[OF m]
  from ex have n: "nest_step path i u (preprocess_if_nest st) = Inr (preprocess_if_nest st)"
    by (simp add: nest_step_other)
  from m have na: "match_include_angle u = None"
    by (auto simp: match_include_angle_def match_include_def dquote_def
        split: option.splits list.splits if_splits)
  from nt have guard: "\<not> (include_guard_define_found st \<and> preprocess_if_nest st = 0
      \<and> \<not> include_guard_endif_found st \<and> match_endif u)"
    by (simp add: is_toplevel_def)
  show ?thesis
    unfolding process_line_unfold[OF n]
    using ex np inc na dec nt guard
    by (simp add: non_guard_line_def Let_def)
qed

text \<open>
  Claim C9 says that the assertion \<^verbatim>\<open>len(lines) == len(uncommented_lines)\<close> never
  fails. The padding only makes the comment-free view longer; when the view has
  more lines than the file, the assertion fails. The file of \<open>linemarker_world\<close>
  has two lines, the first one the linemarker \<^verbatim>\<open># 5 "gen.y"\<close>: the view is padded
  to four empty lines before \<^verbatim>\<open>int x;\<close>, five lines in all, and \<^verbatim>\<open>update\<close> raises
  \<^verbatim>\<open>AssertionError\<close>.
\<close>

theorem linemarker_in_source_fails_assertion:
  "splitlines linemarker_source = [linemarker 5 ''gen.y'', ''int x;'' @ [newline]]
   \<and> get_uncommented_code linemarker_world ''main.cc'' [] ''g++''
       = Inr ([newline] @ [newline] @ [newline] @ [newline] @ ''int x;'' @ [newline])
   \<and> read_lines linemarker_world (init_bundler [] ''g++'') ''main.cc'' = Inl AssertionError
   \<and> update (Suc 0) linemarker_world ''main.cc'' (init_bundler [] ''g++'')
       = Some (Inl AssertionError, init_bundler [] ''g++'')"
  by code_simp


text \<open>
  What holds of the code: the assertion fails exactly when the comment-free view
  has more lines than the file.
\<close>

lemma read_lines_assertion:
  assumes "fs_read env p = Some code0"
    and "get_uncommented_code env p (iquotes s) (compiler s) = Inr uncommented"
  shows "(read_lines env s p = Inl AssertionError) =
           (length (splitlines (if endswith_newline code0 then code0 else code0 @ [newline]))
              < length (splitlines uncommented))"
  using assms by (auto simp: read_lines_def Let_def)


subsection \<open>Nested includes\<close>

text \<open>
  Claim C4, as the code has it. \<^verbatim>\<open>main.cc\<close> is the one line \<^verbatim>\<open>#include "a.h"\<close>;
  \<^verbatim>\<open>a.h\<close> is the line \<^verbatim>\<open>#include "b.h"\<close> followed by its remaining content, plain
  lines; \<^verbatim>\<open>b.h\<close> is plain lines; the files have no comments. The bundle is
  \<^verbatim>\<open>#line 1 "b.h"\<close>, the content of \<^verbatim>\<open>b.h\<close>, \<^verbatim>\<open>#line 2 "a.h"\<close>, the remaining
  content of \<^verbatim>\<open>a.h\<close>, \<^verbatim>\<open>#line 2 "main.cc"\<close>. The directives \<^verbatim>\<open>#line 1 "main.cc"\<close>
  and \<^verbatim>\<open>#line 1 "a.h"\<close> are appended when their files are entered, and popped
  again when the next \<^verbatim>\<open>#line\<close> is appended right after them. Three levels of
  calls are all it needs.
\<close>

theorem nested_include_bundle:
  assumes names: "header_name na" "header_name nb"
    and a_lines: "list_all plain_line as" "as \<noteq> []"
    and b_lines: "list_all plain_line bs" "bs \<noteq> []"
    and main_file: "fs_read env pm = Some (include_quote na)"
    and a_file: "fs_read env pa = Some (include_quote nb @ concat as)"
    and b_file: "fs_read env pb = Some (concat bs)"
    and main_view: "get_uncommented_code env pm iqs cxx = Inr (include_quote na)"
    and a_view: "get_uncommented_code env pa iqs cxx = Inr (include_quote nb @ concat as)"
    and b_view: "get_uncommented_code env pb iqs cxx = Inr (concat bs)"
    and a_found: "Bundler_resolve env (init_bundler iqs cxx) na pm = Inr pa"
    and b_found: "Bundler_resolve env (init_bundler iqs cxx) nb pa = Inr pb"
    and different: "pa \<noteq> pm" "pb \<noteq> pm" "pb \<noteq> pa"
  shows "update (Suc (Suc (Suc n))) env pm (init_bundler iqs cxx) =
           Some (Inr (),
                 (init_bundler iqs cxx)
                   \<lparr>result_lines :=
                      [line_directive 1 (shown_path env pb)] @ bs
                      @ [line_directive 2 (shown_path env pa)] @ as
                      @ [line_directive 2 (shown_path env pm)]\<rparr>)"
proof -
  let ?s0 = "init_bundler iqs cxx"
  let ?sa = "Bundler_line env 1 pm (?s0\<lparr>path_stack := insert pm (path_stack ?s0)\<rparr>)"
  let ?sb = "Bundler_line env 1 pa (?sa\<lparr>path_stack := insert pa (path_stack ?sa)\<rparr>)"
  define tb where "tb = ?sb\<lparr>result_lines :=
      pop_line_directives (result_lines ?sb) @ [line_directive 1 (shown_path env pb)] @ bs\<rparr>"
  have seen_b: "fs_resolve env pb \<notin> pragma_once ?sb"
    by (simp add: init_bundler_def)
  have fresh_b: "pb \<notin> path_stack ?sb"
    using different by (simp add: init_bundler_def)
  have view_b: "get_uncommented_code env pb (iquotes ?sb) (compiler ?sb) = Inr (concat bs)"
    using b_view by (simp add: init_bundler_def)
  have b_run: "update (Suc n) env pb ?sb = Some (Inr (), tb)"
    unfolding tb_def
    by (rule update_plain[OF seen_b fresh_b b_file b_lines view_b])
  have rtb: "result_lines tb = [line_directive 1 (shown_path env pb)] @ bs"
    by (simp add: tb_def result_lines_Bundler_line pop_line_directives_single
        pop_line_directives_Nil init_bundler_def)
  define ta where "ta = tb\<lparr>path_stack := path_stack ?sa,
      result_lines := pop_line_directives (result_lines tb) @ [line_directive 2 (shown_path env pa)] @ as\<rparr>"
  have seen_a: "fs_resolve env pa \<notin> pragma_once ?sa"
    by (simp add: init_bundler_def)
  have fresh_a: "pa \<notin> path_stack ?sa"
    using different by (simp add: init_bundler_def)
  have view_a: "get_uncommented_code env pa (iquotes ?sa) (compiler ?sa)
      = Inr (include_quote nb @ concat as)"
    using a_view by (simp add: init_bundler_def)
  have res_b: "Bundler_resolve env ?sa nb pa = Inr pb"
    using b_found Bundler_resolve_iquotes[of ?sa ?s0 env nb pa] by (simp add: init_bundler_def)
  have a_run: "update (Suc (Suc n)) env pa ?sa = Some (Inr (), ta)"
    unfolding ta_def
    by (rule update_including[OF seen_a fresh_a names(2) a_file a_lines(1) view_a res_b b_run])
  have pop_b: "pop_line_directives ([line_directive 1 (shown_path env pb)] @ bs)
      = [line_directive 1 (shown_path env pb)] @ bs"
    by (rule pop_line_directives_plain[OF b_lines(2,1)])
  have rta0: "result_lines ta =
      pop_line_directives (result_lines tb) @ [line_directive 2 (shown_path env pa)] @ as"
    by (simp add: ta_def)
  have rta: "result_lines ta = [line_directive 1 (shown_path env pb)] @ bs
      @ [line_directive 2 (shown_path env pa)] @ as"
    using rta0 unfolding rtb pop_b by (simp only: append_assoc)
  have seen_m: "fs_resolve env pm \<notin> pragma_once ?s0"
    by (simp add: init_bundler_def)
  have fresh_m: "pm \<notin> path_stack ?s0"
    by (simp add: init_bundler_def)
  have file_m: "fs_read env pm = Some (include_quote na @ concat [])"
    using main_file by simp
  have view_m: "get_uncommented_code env pm (iquotes ?s0) (compiler ?s0)
      = Inr (include_quote na @ concat [])"
    using main_view by (simp add: init_bundler_def)
  have no_lines: "list_all plain_line []"
    by simp
  have main_run: "update (Suc (Suc (Suc n))) env pm ?s0 =
      Some (Inr (), ta\<lparr>path_stack := path_stack ?s0,
        result_lines := pop_line_directives (result_lines ta) @ [line_directive 2 (shown_path env pm)] @ []\<rparr>)"
    by (rule update_including[OF seen_m fresh_m names(1) file_m no_lines view_m a_found a_run])
  have pop_a: "pop_line_directives
      ([line_directive 1 (shown_path env pb)] @ bs @ [line_directive 2 (shown_path env pa)] @ as)
      = [line_directive 1 (shown_path env pb)] @ bs @ [line_directive 2 (shown_path env pa)] @ as"
    using pop_line_directives_plain[OF a_lines(2,1),
        of "[line_directive 1 (shown_path env pb)] @ bs @ [line_directive 2 (shown_path env pa)]"]
    by (simp only: append_assoc)
  have final: "ta\<lparr>path_stack := path_stack ?s0,
        result_lines := pop_line_directives (result_lines ta) @ [line_directive 2 (shown_path env pm)] @ []\<rparr>
      = ?s0\<lparr>result_lines :=
                      [line_directive 1 (shown_path env pb)] @ bs
                      @ [line_directive 2 (shown_path env pa)] @ as
                      @ [line_directive 2 (shown_path env pm)]\<rparr>"
    unfolding rta pop_a
    by (simp add: ta_def tb_def Bundler_line_def init_bundler_def)
  from main_run show ?thesis
    unfolding final .
qed

theorem nested_include_bundle_witness:
  "header_name ''a.h'' \<and> header_name ''b.h''
   \<and> list_all plain_line [(''int a;'' @ [newline])] \<and> [(''int a;'' @ [newline])] \<noteq> []
   \<and> list_all plain_line [''int b;'' @ [newline]] \<and> [''int b;'' @ [newline]] \<noteq> []
   \<and> fs_read nested_world ''main.cc'' = Some (include_quote ''a.h'')
   \<and> fs_read nested_world ''a.h'' = Some (include_quote ''b.h'' @ concat [(''int a;'' @ [newline])])
   \<and> fs_read nested_world ''b.h'' = Some (concat [''int b;'' @ [newline]])
   \<and> get_uncommented_code nested_world ''main.cc'' [] ''g++'' = Inr (include_quote ''a.h'')
   \<and> get_uncommented_code nested_world ''a.h'' [] ''g++''
       = Inr (include_quote ''b.h'' @ concat [(''int a;'' @ [newline])])
   \<and> get_uncommented_code nested_world ''b.h'' [] ''g++'' = Inr (concat [''int b;'' @ [newline]])
   \<and> Bundler_resolve nested_world (init_bundler [] ''g++'') ''a.h'' ''main.cc'' = Inr ''a.h''
   \<and> Bundler_resolve nested_world (init_bundler [] ''g++'') ''b.h'' ''a.h'' = Inr ''b.h''
   \<and> ''a.h'' \<noteq> ''main.cc'' \<and> ''b.h'' \<noteq> ''main.cc'' \<and> ''b.h'' \<noteq> ''a.h''
   \<and> update (Suc (Suc (Suc 0))) nested_world ''main.cc'' (init_bundler [] ''g++'') =
           Some (Inr (),
                 (init_bundler [] ''g++'')
                   \<lparr>result_lines :=
                      [line_directive 1 (shown_path nested_world ''b.h'')] @ [''int b;'' @ [newline]]
                      @ [line_directive 2 (shown_path nested_world ''a.h'')] @ [(''int a;'' @ [newline])]
                      @ [line_directive 2 (shown_path nested_world ''main.cc'')]\<rparr>)"
proof -
  have h1: "header_name ''a.h''" by code_simp
  have h2: "header_name ''b.h''" by code_simp
  have h3: "list_all plain_line [(''int a;'' @ [newline])]" by code_simp
  have h4: "[(''int a;'' @ [newline])] \<noteq> []" by simp
  have h5: "list_all plain_line [''int b;'' @ [newline]]" by code_simp
  have h6: "[''int b;'' @ [newline]] \<noteq> []" by simp
  have h7: "fs_read nested_world ''main.cc'' = Some (include_quote ''a.h'')" by code_simp
  have h8: "fs_read nested_world ''a.h'' = Some (include_quote ''b.h'' @ concat [(''int a;'' @ [newline])])"
    by code_simp
  have h9: "fs_read nested_world ''b.h'' = Some (concat [''int b;'' @ [newline]])" by code_simp
  have h10: "get_uncommented_code nested_world ''main.cc'' [] ''g++'' = Inr (include_quote ''a.h'')"
    by code_simp
  have h11: "get_uncommented_code nested_world ''a.h'' [] ''g++''
       = Inr (include_quote ''b.h'' @ concat [(''int a;'' @ [newline])])"
    by code_simp
  have h12: "get_uncommented_code nested_world ''b.h'' [] ''g++''
       = Inr (concat [''int b;'' @ [newline]])"
    by code_simp
  have h13: "Bundler_resolve nested_world (init_bundler [] ''g++'') ''a.h'' ''main.cc'' = Inr ''a.h''"
    by code_simp
  have h14: "Bundler_resolve nested_world (init_bundler [] ''g++'') ''b.h'' ''a.h'' = Inr ''b.h''"
    by code_simp
  have h15: "''a.h'' \<noteq> ''main.cc''" by simp
  have h16: "''b.h'' \<noteq> ''main.cc''" by simp
  have h17: "''b.h'' \<noteq> ''a.h''" by simp
  from nested_include_bundle[OF h1 h2 h3 h4 h5 h6 h7 h8 h9 h10 h11 h12 h13 h14 h15 h16 h17, of 0]
    h1 h2 h3 h4 h5 h6 h7 h8 h9 h10 h11 h12 h13 h14 h15 h16 h17
  show ?thesis
    by blast
qed

text \<open>
  The scenario as it was stated announces \<^verbatim>\<open>#line 1 "main.cc"\<close> and
  \<^verbatim>\<open>#line 1 "a.h"\<close> at the head of the output. For the files of \<open>nested_world\<close> the
  bundle starts with \<^verbatim>\<open>#line 1 "b.h"\<close>: it is not the announced output.
\<close>

theorem nested_include_counterexample:
  "update (Suc (Suc (Suc 0))) nested_world ''main.cc'' (init_bundler [] ''g++'')
     = Some (Inr (),
         (init_bundler [] ''g++'')
           \<lparr>result_lines :=
              [line_directive 1 ''b.h'', ''int b;'' @ [newline], line_directive 2 ''a.h'',
               ''int a;'' @ [newline], line_directive 2 ''main.cc'']\<rparr>)
   \<and> [line_directive 1 ''b.h'', ''int b;'' @ [newline], line_directive 2 ''a.h'',
       ''int a;'' @ [newline], line_directive 2 ''main.cc''] \<noteq> nested_announced"
  by code_simp

end
